theory Spec2Isabelle
  imports Complex_Main "HOL-Library.Word"
begin

section \<open>Python values and errors\<close>

text \<open>
  The exceptions that the modelled functions can raise implicitly. A function that can
  raise returns \<open>py_error + 'a\<close>, with \<open>Inl\<close> for the exception.
\<close>

datatype py_error =
    IndexError | KeyError | TypeError | AttributeError | ZeroDivisionError
  | OverflowError | ValueError

text \<open>Python list indexing with a non-negative index: out of range raises IndexError.\<close>

definition py_get :: "'a list \<Rightarrow> nat \<Rightarrow> py_error + 'a" where
  "py_get xs i = (if i < length xs then Inr (xs ! i) else Inl IndexError)"

text \<open>\<open>xs.pop(i)\<close> for an index in range: the list without position \<open>i\<close>.\<close>

definition py_pop :: "'a list \<Rightarrow> nat \<Rightarrow> 'a list" where
  "py_pop xs i = take i xs @ drop (Suc i) xs"

section \<open>The AI credential pool: GeminiKeyManager (scripts/process\_pipeline.py)\<close>

text \<open>
  A pool entry is a dictionary read through \<open>.get('key')\<close> and \<open>.get('status')\<close>; both
  reads give None when the field is absent.
\<close>

record key_entry =
  key :: "string option"
  status :: "string option"

text \<open>
  The constructor accepts a list whose items are plain strings, dictionaries, or anything
  else (skipped with a warning).
\<close>

datatype key_item = PlainKey string | DictKey key_entry | InvalidKey

record GeminiKeyManager =
  keys :: "key_entry list"
  current_index :: nat

fun load_keys :: "key_item list \<Rightarrow> key_entry list" where
  "load_keys [] = []"
| "load_keys (PlainKey k # ks) = \<lparr>key = Some k, status = Some ''active''\<rparr> # load_keys ks"
| "load_keys (DictKey d # ks) =
     (if status d = Some ''active'' then d # load_keys ks else load_keys ks)"
| "load_keys (InvalidKey # ks) = load_keys ks"

text \<open>
  \<open>GeminiKeyManager_init ks r\<close> is \<open>GeminiKeyManager(ks)\<close> where \<open>r\<close> is the value drawn by
  \<open>random.randint(0, len(self.keys) - 1)\<close>, so \<open>r < length (load_keys ks)\<close> whenever it
  is drawn.
\<close>

definition GeminiKeyManager_init :: "key_item list \<Rightarrow> nat \<Rightarrow> GeminiKeyManager" where
  "GeminiKeyManager_init ks r =
     (let xs = load_keys ks in \<lparr>keys = xs, current_index = (if xs \<noteq> [] then r else 0)\<rparr>)"

definition get_current_key :: "GeminiKeyManager \<Rightarrow> py_error + (string option \<times> GeminiKeyManager)" where
  "get_current_key km =
     (if keys km = [] then Inr (None, km)
      else
        let km1 = (if current_index km \<ge> length (keys km) then km\<lparr>current_index := 0\<rparr> else km)
        in case py_get (keys km1) (current_index km1) of
             Inl e \<Rightarrow> Inl e
           | Inr entry \<Rightarrow> Inr (key entry, km1))"

definition rotate_key :: "GeminiKeyManager \<Rightarrow> GeminiKeyManager" where
  "rotate_key km =
     (if keys km \<noteq> [] then km\<lparr>current_index := (current_index km + 1) mod length (keys km)\<rparr>
      else km)"

text \<open>
  \<open>disable_current_key\<close> first writes \<open>'disabled'\<close> into the entry and then pops it, so
  the write is not visible in the pool any more.
\<close>

definition disable_current_key :: "GeminiKeyManager \<Rightarrow> string \<Rightarrow> GeminiKeyManager" where
  "disable_current_key km reason =
     (if keys km \<noteq> [] \<and> current_index km < length (keys km) then
        let i = current_index km;
            marked = (keys km)[i := (keys km ! i)\<lparr>status := Some ''disabled''\<rparr>];
            rest = py_pop marked i
        in \<lparr>keys = rest, current_index = (if i \<ge> length rest then 0 else i)\<rparr>
      else km)"

definition get_active_count :: "GeminiKeyManager \<Rightarrow> nat" where
  "get_active_count km = length (keys km)"

text \<open>A caller's operations on the pool, and a run of a sequence of them.\<close>

datatype km_op = GetCurrentKey | RotateKey | DisableCurrentKey string

fun km_step :: "GeminiKeyManager \<Rightarrow> km_op \<Rightarrow> py_error + (string option option \<times> GeminiKeyManager)" where
  "km_step km GetCurrentKey =
     (case get_current_key km of Inl e \<Rightarrow> Inl e | Inr (k, km') \<Rightarrow> Inr (Some k, km'))"
| "km_step km RotateKey = Inr (None, rotate_key km)"
| "km_step km (DisableCurrentKey reason) = Inr (None, disable_current_key km reason)"

text \<open>
  \<open>km_run km ops\<close> gives the keys that the \<open>get_current_key\<close> calls of \<open>ops\<close> returned, in
  order, and the final pool; or the first exception.
\<close>

fun km_run :: "GeminiKeyManager \<Rightarrow> km_op list \<Rightarrow> py_error + (string option list \<times> GeminiKeyManager)" where
  "km_run km [] = Inr ([], km)"
| "km_run km (op # ops) =
     (case km_step km op of
        Inl e \<Rightarrow> Inl e
      | Inr (r, km1) \<Rightarrow>
          (case km_run km1 ops of
             Inl e \<Rightarrow> Inl e
           | Inr (rs, km2) \<Rightarrow> Inr ((case r of None \<Rightarrow> rs | Some k \<Rightarrow> k # rs), km2)))"

text \<open>The rotation index is within the working set (or 0 on an empty one).\<close>

definition index_in_bounds :: "GeminiKeyManager \<Rightarrow> bool" where
  "index_in_bounds km =
     (if keys km = [] then current_index km = 0 else current_index km < length (keys km))"

section \<open>Python numbers\<close>

text \<open>
  A Python \<open>float\<close> is an IEEE 754 binary64 value. It is modelled by its 64 bits: the
  sign, 11 bits of biased exponent, and 52 bits of fraction. The exponent 2047 holds the
  infinities (fraction 0) and the NaNs; the exponent 0 holds the zeros and the subnormal
  numbers.
\<close>

type_synonym float = "64 word"

definition float_sign :: "float \<Rightarrow> bool" where
  "float_sign x \<longleftrightarrow> uint x div 2 ^ 63 = 1"

definition float_exponent :: "float \<Rightarrow> int" where
  "float_exponent x = uint x div 2 ^ 52 mod 2048"

definition float_fraction :: "float \<Rightarrow> int" where
  "float_fraction x = uint x mod 2 ^ 52"

definition is_nan :: "float \<Rightarrow> bool" where
  "is_nan x \<longleftrightarrow> float_exponent x = 2047 \<and> float_fraction x \<noteq> 0"

definition is_inf :: "float \<Rightarrow> bool" where
  "is_inf x \<longleftrightarrow> float_exponent x = 2047 \<and> float_fraction x = 0"

definition is_zero :: "float \<Rightarrow> bool" where
  "is_zero x \<longleftrightarrow> float_exponent x = 0 \<and> float_fraction x = 0"

definition float_inf :: float where
  "float_inf = 0x7FF0000000000000"

definition float_nan :: float where
  "float_nan = 0x7FF8000000000000"

definition sign_bit :: float where
  "sign_bit = 0x8000000000000000"

definition pow2 :: "int \<Rightarrow> rat" where
  "pow2 e = (if e \<ge> 0 then 2 ^ nat e else 1 / 2 ^ nat (- e))"

text \<open>The number that a float denotes, when it is neither an infinity nor a NaN.\<close>

definition float_value :: "float \<Rightarrow> rat" where
  "float_value x =
     (if float_sign x then - 1 else 1) *
     (if float_exponent x = 0 then of_int (float_fraction x) * pow2 (- 1074)
      else of_int (2 ^ 52 + float_fraction x) * pow2 (float_exponent x - 1075))"

text \<open>The number of binary digits of a positive integer (\<open>int.bit_length\<close>), and with it
  the integer part of the binary logarithm of a positive rational.\<close>

function bit_length :: "int \<Rightarrow> int" where
  "bit_length n = (if n \<le> 0 then 0 else bit_length (n div 2) + 1)"
  by pat_completeness auto
termination
  by (relation "measure nat") auto

declare bit_length.simps [simp del]

definition floor_log2 :: "rat \<Rightarrow> int" where
  "floor_log2 x =
     (let (p, q) = quotient_of x;
          d = bit_length p - bit_length q
      in if pow2 d \<le> x then d else d - 1)"

definition round_half_even :: "rat \<Rightarrow> int" where
  "round_half_even x =
     (let n = \<lfloor>x\<rfloor>; r = x - of_int n
      in if r < 1 / 2 then n else if r > 1 / 2 then n + 1 else if even n then n else n + 1)"

text \<open>
  Rounding to the nearest float, ties to the even fraction: how a decimal literal is read
  (\<open>json.loads\<close>, \<open>float('8.2')\<close>), how an \<open>int\<close> is converted, and how the exact result
  of an operation is rounded. \<open>m\<close> is the number in units of the last place, at most
  \<open>2 ^ 53\<close>; adding it to the exponent field carries into the exponent when it is
  \<open>2 ^ 53\<close>, and a result beyond the largest float is an infinity.
\<close>

definition float_round :: "rat \<Rightarrow> float" where
  "float_round x =
     (if x = 0 then 0
      else
        let e = max (floor_log2 \<bar>x\<bar>) (- 1022);
            m = round_half_even (\<bar>x\<bar> / pow2 (e - 52));
            bits = (e + 1022) * 2 ^ 52 + m
        in (if x < 0 then sign_bit else 0) +
           (if bits \<ge> 2047 * 2 ^ 52 then float_inf else word_of_int bits))"

text \<open>
  \<open>x - y\<close> on floats. A NaN operand gives that NaN, and the difference of two equal
  infinities is a NaN (which of the NaNs is of no consequence: the program reads no bit
  of a NaN). An exact result of zero is \<open>+0.0\<close>, except for \<open>-0.0 - 0.0\<close>.
\<close>

definition float_sub :: "float \<Rightarrow> float \<Rightarrow> float" where
  "float_sub x y =
     (if is_nan x then x
      else if is_nan y then y
      else if is_inf x then (if is_inf y \<and> float_sign x = float_sign y then float_nan else x)
      else if is_inf y then (if float_sign y then float_inf else sign_bit + float_inf)
      else if float_value x = float_value y then
        (if is_zero x \<and> float_sign x \<and> \<not> float_sign y then sign_bit else 0)
      else float_round (float_value x - float_value y))"

text \<open>\<open>x >= n\<close> and \<open>x == n\<close> for a float and an \<open>int\<close> (Python compares the exact
  values), and \<open>x == y\<close> for two floats.\<close>

definition float_ge_int :: "float \<Rightarrow> int \<Rightarrow> bool" where
  "float_ge_int x n \<longleftrightarrow>
     \<not> is_nan x \<and> (if is_inf x then \<not> float_sign x else float_value x \<ge> of_int n)"

definition float_eq_int :: "float \<Rightarrow> int \<Rightarrow> bool" where
  "float_eq_int x n \<longleftrightarrow> \<not> is_nan x \<and> \<not> is_inf x \<and> float_value x = of_int n"

definition float_eq :: "float \<Rightarrow> float \<Rightarrow> bool" where
  "float_eq x y \<longleftrightarrow> \<not> is_nan x \<and> \<not> is_nan y \<and> (x = y \<or> (is_zero x \<and> is_zero y))"

text \<open>The conversion of an \<open>int\<close> to a float raises OverflowError when the rounded value
  is beyond the largest float.\<close>

definition int_to_float :: "int \<Rightarrow> py_error + float" where
  "int_to_float i = (let x = float_round (of_int i) in if is_inf x then Inl OverflowError else Inr x)"

text \<open>A number is an \<open>int\<close> (unbounded) or a \<open>float\<close>. In a mixed operation the \<open>int\<close>
  is converted first.\<close>

datatype py_number = PyInt int | PyFloat float

fun py_sub :: "py_number \<Rightarrow> py_number \<Rightarrow> py_error + py_number" where
  "py_sub (PyInt a) (PyInt b) = Inr (PyInt (a - b))"
| "py_sub (PyFloat x) (PyFloat y) = Inr (PyFloat (float_sub x y))"
| "py_sub (PyInt a) (PyFloat y) =
     (case int_to_float a of Inl e \<Rightarrow> Inl e | Inr x \<Rightarrow> Inr (PyFloat (float_sub x y)))"
| "py_sub (PyFloat x) (PyInt b) =
     (case int_to_float b of Inl e \<Rightarrow> Inl e | Inr y \<Rightarrow> Inr (PyFloat (float_sub x y)))"

fun py_ge_int :: "py_number \<Rightarrow> int \<Rightarrow> bool" where
  "py_ge_int (PyInt a) n = (a \<ge> n)"
| "py_ge_int (PyFloat x) n = float_ge_int x n"

text \<open>
  Writing a number in a string (\<open>str\<close>, an f-string): CPython refuses to convert an
  \<open>int\<close> of more than 4300 decimal digits and raises ValueError (the default limit since
  version 3.11). A float is always written.
\<close>

definition int_max_str_digits :: nat where
  "int_max_str_digits = 4300"

function decimal_digits :: "int \<Rightarrow> nat" where
  "decimal_digits n = (if n < 10 then 1 else decimal_digits (n div 10) + 1)"
  by pat_completeness auto
termination
  by (relation "measure nat") auto

declare decimal_digits.simps [simp del]

fun py_str_raises :: "py_number \<Rightarrow> bool" where
  "py_str_raises (PyInt i) = (decimal_digits \<bar>i\<bar> > int_max_str_digits)"
| "py_str_raises (PyFloat x) = False"

fun py_number_eq :: "py_number \<Rightarrow> py_number \<Rightarrow> bool" where
  "py_number_eq (PyInt a) (PyInt b) = (a = b)"
| "py_number_eq (PyFloat x) (PyFloat y) = float_eq x y"
| "py_number_eq (PyInt a) (PyFloat y) = float_eq_int y a"
| "py_number_eq (PyFloat x) (PyInt b) = float_eq_int x b"

section \<open>JSON values\<close>

text \<open>
  What \<open>json.loads\<close> and \<open>response.json()\<close> return: a JSON number without fraction and
  exponent is an \<open>int\<close>, every other number a \<open>float\<close> (\<open>float_round\<close> of the literal, or
  an infinity or a NaN for the literals \<open>Infinity\<close>, \<open>-Infinity\<close> and \<open>NaN\<close>, which the decoder
  accepts). An object is the list of its members in the order of the dictionary; a
  dictionary holds a key once, and where a list holds a key twice the first member is
  the one that is read.
\<close>

datatype json =
    JNull
  | JBool bool
  | JInt int
  | JFloat float
  | JStr string
  | JArr "json list"
  | JObj "(string \<times> json) list"

section \<open>The provider fallback chain (scripts/process\_pipeline.py)\<close>

definition MAX_GEMINI_RETRIES :: nat where
  "MAX_GEMINI_RETRIES = 10"

text \<open>
  What the \<open>requests\<close> library does with the status code of a response:
  \<open>raise_for_status\<close> raises an \<open>HTTPError\<close> for a status from 400 to 599 (the
  definition says whether it raises), and the truth value of a \<open>Response\<close> object is its
  property \<open>ok\<close>, which is False exactly when \<open>raise_for_status\<close> raises.
\<close>

definition raise_for_status :: "nat \<Rightarrow> bool" where
  "raise_for_status status_code \<longleftrightarrow> 400 \<le> status_code \<and> status_code < 600"

definition response_bool :: "nat \<Rightarrow> bool" where
  "response_bool status_code \<longleftrightarrow> \<not> raise_for_status status_code"

text \<open>
  The outcome of one POST to the primary provider: a response, with its status code and
  its decoded body (None where \<open>response.json()\<close> raises); or an exception raised by
  \<open>requests.post\<close> (time-out, connection error).
\<close>

datatype gemini_outcome =
    GeminiResponse nat "json option"
  | GeminiException

text \<open>The outcome of the POST to the secondary provider.\<close>

datatype hf_outcome = HfResponse json | HfHTTPError | HfException

text \<open>
  The world outside: the outcome of the n-th POST to each provider (counted from 0 over
  the run) and the configured token of the secondary provider.
\<close>

record ai_env =
  gemini_post :: "nat \<Rightarrow> gemini_outcome"
  huggingface_post :: "nat \<Rightarrow> hf_outcome"
  HUGGINGFACE_TOKEN :: string

text \<open>
  The state threaded through the calls: the pool, and three counters that the source
  does not keep (POSTs to the primary provider, invocations of
  \<open>call_huggingface_api\<close>, self-invocations of \<open>call_gemini_api\<close>).
\<close>

record ai_state =
  key_manager :: GeminiKeyManager
  gemini_posts :: nat
  hf_calls :: nat
  recursions :: nat

text \<open>\<open>data['choices'][0]['message']['content']\<close>; None where the source raises or
  finds no choice (both end in \<open>return None\<close>).\<close>

fun hf_content :: "json \<Rightarrow> json option" where
  "hf_content (JObj members) =
     (case map_of members ''choices'' of
        Some (JArr (JObj choice # _)) \<Rightarrow>
          (case map_of choice ''message'' of
             Some (JObj message) \<Rightarrow> map_of message ''content''
           | _ \<Rightarrow> None)
      | _ \<Rightarrow> None)"
| "hf_content _ = None"

definition gemini_format :: "json \<Rightarrow> json" where
  "gemini_format content =
     JObj [(''candidates'',
       JArr [JObj [(''content'', JObj [(''parts'', JArr [JObj [(''text'', content)]])])]])]"

text \<open>\<open>call_huggingface_api\<close>: its result, and the state with the invocation counted.
  Without a token no request is sent.\<close>

definition call_huggingface_api :: "ai_env \<Rightarrow> ai_state \<Rightarrow> json option \<times> ai_state" where
  "call_huggingface_api env st =
     (let st1 = st\<lparr>hf_calls := hf_calls st + 1\<rparr> in
      if HUGGINGFACE_TOKEN env = [] then (None, st1)
      else
        (case huggingface_post env (hf_calls st) of
           HfResponse data \<Rightarrow>
             (case hf_content data of
                Some content \<Rightarrow> (Some (gemini_format content), st1)
              | None \<Rightarrow> (None, st1))
         | HfHTTPError \<Rightarrow> (None, st1)
         | HfException \<Rightarrow> (None, st1)))"

text \<open>
  \<open>call_gemini_api\<close> is modelled in two parts. \<open>gemini_attempt\<close> is its body below the
  retry-limit check, up to the point where the source returns, raises, or invokes itself
  with \<open>retry_count + 1\<close> (\<open>Reinvoke\<close>, carrying the state at that point). The prompt is
  left out: no branch depends on it. The body of a 2xx response is returned as it is, so
  a body \<open>null\<close> is Python's None.
\<close>

datatype attempt =
    Returned "json option" ai_state
  | Reinvoke ai_state
  | Raised py_error

text \<open>
  The handler \<open>except requests.exceptions.HTTPError as e\<close>, where \<open>e.response\<close> is the
  response with the status \<open>response_status\<close>. It first binds
  \<open>status_code = e.response.status_code if e.response else None\<close>, which tests the truth
  value of the response.
\<close>

definition http_error_handler :: "ai_env \<Rightarrow> ai_state \<Rightarrow> nat \<Rightarrow> attempt" where
  "http_error_handler env st1 response_status =
     (let status_code = (if response_bool response_status then Some response_status else None)
      in if status_code \<in> {Some 400, Some 403, Some 429, Some 503} then
           if status_code = Some 503 then
             if get_active_count (key_manager st1) > 0 then
               Reinvoke (st1\<lparr>key_manager := rotate_key (key_manager st1)\<rparr>)
             else
               (case call_huggingface_api env st1 of
                  (hf_response, st') \<Rightarrow> Returned hf_response st')
           else
             let st2 = st1\<lparr>key_manager :=
                         disable_current_key (key_manager st1) ''HTTP error''\<rparr> in
             if get_active_count (key_manager st2) > 0 then
               Reinvoke (st2\<lparr>key_manager := rotate_key (key_manager st2)\<rparr>)
             else Returned None st2
         else Returned None st1)"

text \<open>The handler \<open>except Exception\<close>.\<close>

definition exception_handler :: "ai_state \<Rightarrow> attempt" where
  "exception_handler st1 =
     (if get_active_count (key_manager st1) > 0 then
        Reinvoke (st1\<lparr>key_manager := rotate_key (key_manager st1)\<rparr>)
      else Returned None st1)"

definition gemini_attempt :: "ai_env \<Rightarrow> ai_state \<Rightarrow> attempt" where
  "gemini_attempt env st =
     (case get_current_key (key_manager st) of
        Inl e \<Rightarrow> Raised e
      | Inr (api_key, km1) \<Rightarrow>
          if api_key = None \<or> api_key = Some [] then
            (case call_huggingface_api env (st\<lparr>key_manager := km1\<rparr>) of
               (hf_response, st') \<Rightarrow> Returned hf_response st')
          else
            let st1 = st\<lparr>key_manager := km1, gemini_posts := gemini_posts st + 1\<rparr> in
            (case gemini_post env (gemini_posts st) of
               GeminiResponse response_status body \<Rightarrow>
                 if raise_for_status response_status then
                   http_error_handler env st1 response_status
                 else
                   (case body of
                      Some data \<Rightarrow> Returned (if data = JNull then None else Some data) st1
                    | None \<Rightarrow> exception_handler st1)
             | GeminiException \<Rightarrow> exception_handler st1))"

function call_gemini_api :: "ai_env \<Rightarrow> ai_state \<Rightarrow> nat \<Rightarrow> py_error + (json option \<times> ai_state)" where
  "call_gemini_api env st retry_count =
     (if retry_count \<ge> MAX_GEMINI_RETRIES then Inr (call_huggingface_api env st)
      else
        (case gemini_attempt env st of
           Raised e \<Rightarrow> Inl e
         | Returned response st' \<Rightarrow> Inr (response, st')
         | Reinvoke st' \<Rightarrow>
             call_gemini_api env (st'\<lparr>recursions := recursions st' + 1\<rparr>) (retry_count + 1)))"
  by pat_completeness auto
termination
  by (relation "measure (\<lambda>(env, st, retry_count). MAX_GEMINI_RETRIES - retry_count)") auto

declare call_gemini_api.simps [simp del]

section \<open>Python's view of JSON values\<close>

text \<open>Truthiness (\<open>if x\<close>, \<open>if not x\<close>).\<close>

fun py_truthy :: "json \<Rightarrow> bool" where
  "py_truthy JNull = False"
| "py_truthy (JBool b) = b"
| "py_truthy (JInt i) = (i \<noteq> 0)"
| "py_truthy (JFloat x) = (\<not> is_zero x)"
| "py_truthy (JStr s) = (s \<noteq> [])"
| "py_truthy (JArr xs) = (xs \<noteq> [])"
| "py_truthy (JObj members) = (members \<noteq> [])"

text \<open>A value as a number: booleans are the integers 0 and 1.\<close>

fun py_num :: "json \<Rightarrow> py_number option" where
  "py_num (JInt i) = Some (PyInt i)"
| "py_num (JFloat x) = Some (PyFloat x)"
| "py_num (JBool b) = Some (PyInt (if b then 1 else 0))"
| "py_num _ = None"

text \<open>Writing a value in a string raises when writing one of the numbers in it does.\<close>

fun json_str_raises :: "json \<Rightarrow> bool" where
  "json_str_raises (JInt i) = py_str_raises (PyInt i)"
| "json_str_raises (JArr xs) = (\<exists>x \<in> set xs. json_str_raises x)"
| "json_str_raises (JObj members) = (\<exists>m \<in> set members. json_str_raises (snd m))"
| "json_str_raises _ = False"

text \<open>\<open>a == b\<close>: numbers by value, everything else structurally.\<close>

definition py_eq :: "json \<Rightarrow> json \<Rightarrow> bool" where
  "py_eq a b =
     (case (py_num a, py_num b) of (Some x, Some y) \<Rightarrow> py_number_eq x y | _ \<Rightarrow> a = b)"

text \<open>\<open>needle in haystack\<close> for two strings.\<close>

fun py_substring :: "string \<Rightarrow> string \<Rightarrow> bool" where
  "py_substring needle [] = (needle = [])"
| "py_substring needle (c # cs) =
     (take (length needle) (c # cs) = needle \<or> py_substring needle cs)"

text \<open>\<open>k in x\<close> for a string \<open>k\<close>: a key of an object, an element of an array, a
  substring of a string; anything else raises TypeError.\<close>

fun py_in :: "string \<Rightarrow> json \<Rightarrow> py_error + bool" where
  "py_in k (JObj members) = Inr (k \<in> fst ` set members)"
| "py_in k (JArr xs) = Inr (\<exists>x \<in> set xs. x = JStr k)"
| "py_in k (JStr s) = Inr (py_substring k s)"
| "py_in k _ = Inl TypeError"

text \<open>\<open>for e in x\<close>: the elements of an array, the keys of an object, the characters
  of a string; anything else raises TypeError.\<close>

fun py_iter :: "json \<Rightarrow> py_error + json list" where
  "py_iter (JArr xs) = Inr xs"
| "py_iter (JObj members) = Inr (map (\<lambda>m. JStr (fst m)) members)"
| "py_iter (JStr s) = Inr (map (\<lambda>c. JStr [c]) s)"
| "py_iter _ = Inl TypeError"

text \<open>\<open>x['k']\<close> for a string \<open>k\<close>.\<close>

fun py_item :: "json \<Rightarrow> string \<Rightarrow> py_error + json" where
  "py_item (JObj members) k =
     (case map_of members k of Some v \<Rightarrow> Inr v | None \<Rightarrow> Inl KeyError)"
| "py_item _ k = Inl TypeError"

text \<open>\<open>x[0]\<close>.\<close>

fun py_first :: "json \<Rightarrow> py_error + json" where
  "py_first (JArr xs) = (case xs of [] \<Rightarrow> Inl IndexError | x # _ \<Rightarrow> Inr x)"
| "py_first (JStr s) = (case s of [] \<Rightarrow> Inl IndexError | c # _ \<Rightarrow> Inr (JStr [c]))"
| "py_first (JObj members) = Inl KeyError"
| "py_first _ = Inl TypeError"

text \<open>\<open>x.get('k')\<close>, which only a dictionary has.\<close>

fun py_dict_get :: "json \<Rightarrow> string \<Rightarrow> py_error + json" where
  "py_dict_get (JObj members) k =
     (case map_of members k of Some v \<Rightarrow> Inr v | None \<Rightarrow> Inr JNull)"
| "py_dict_get _ k = Inl AttributeError"

text \<open>\<open>x.get('k', default)\<close>.\<close>

fun py_dict_get_default :: "json \<Rightarrow> string \<Rightarrow> json \<Rightarrow> py_error + json" where
  "py_dict_get_default (JObj members) k d =
     (case map_of members k of Some v \<Rightarrow> Inr v | None \<Rightarrow> Inr d)"
| "py_dict_get_default _ k d = Inl AttributeError"

section \<open>The credential store (database.py) and the transcript pool (scripts/transcript\_manager.py)\<close>

text \<open>
  A row of \<open>api_keys\<close>. \<open>ak_id\<close> is the primary key; \<open>ak_last_used\<close> is a time stamp.
  The store is taken to be reliable: the handlers for a failing query or commit are not
  modelled, except for the commit of a new credential.
\<close>

record ApiKey =
  ak_id :: nat
  ak_service :: string
  ak_api_key :: string
  ak_email :: "string option"
  ak_password :: "string option"
  ak_status :: string
  ak_usage_count :: "nat option"
  ak_disabled_reason :: "string option"
  ak_last_used :: "nat option"

text \<open>A row of \<open>videos\<close>: one uploaded clip.\<close>

record Video =
  v_video_id :: string
  v_filename :: string
  v_title :: json
  v_description :: json
  v_duration :: py_number
  v_r2_url :: string
  v_r2_key :: string
  v_uploaded_to_tiktok :: bool

record db_session =
  api_keys :: "ApiKey list"
  no_transcript_videos :: "(string \<times> string) list"
  videos :: "Video list"

text \<open>\<open>order_by(last_used.asc().nullsfirst())\<close>: never-used rows first.\<close>

definition lru_le :: "nat option \<Rightarrow> nat option \<Rightarrow> bool" where
  "lru_le a b = (case a of None \<Rightarrow> True | Some x \<Rightarrow> (case b of None \<Rightarrow> False | Some y \<Rightarrow> x \<le> y))"

text \<open>\<open>.first()\<close> of the ordered rows; among equally old rows the earliest of the table.\<close>

fun first_lru :: "ApiKey list \<Rightarrow> ApiKey option" where
  "first_lru [] = None"
| "first_lru (k # ks) =
     (case first_lru ks of
        None \<Rightarrow> Some k
      | Some m \<Rightarrow> if lru_le (ak_last_used k) (ak_last_used m) then Some k else Some m)"

definition get_active_key :: "db_session \<Rightarrow> ApiKey option" where
  "get_active_key db =
     first_lru (filter (\<lambda>k. ak_service k = ''transcript_api'' \<and> ak_status k = ''active'')
                  (api_keys db))"

text \<open>\<open>query(ApiKey).filter_by(id=key_id).first()\<close>, then an update of that row.\<close>

fun update_row :: "nat \<Rightarrow> (ApiKey \<Rightarrow> ApiKey) \<Rightarrow> ApiKey list \<Rightarrow> ApiKey list" where
  "update_row i f [] = []"
| "update_row i f (k # ks) = (if ak_id k = i then f k # ks else k # update_row i f ks)"

definition mark_key_used :: "db_session \<Rightarrow> nat \<Rightarrow> nat \<Rightarrow> db_session" where
  "mark_key_used db key_id now =
     db\<lparr>api_keys :=
          update_row key_id
            (\<lambda>k. k\<lparr>ak_usage_count := Some ((case ak_usage_count k of None \<Rightarrow> 0 | Some n \<Rightarrow> n) + 1),
                   ak_last_used := Some now\<rparr>)
            (api_keys db)\<rparr>"

definition disable_key :: "db_session \<Rightarrow> nat \<Rightarrow> string \<Rightarrow> db_session" where
  "disable_key db key_id reason =
     db\<lparr>api_keys :=
          update_row key_id
            (\<lambda>k. k\<lparr>ak_status := ''disabled'', ak_disabled_reason := Some reason\<rparr>)
            (api_keys db)\<rparr>"

definition get_active_keys_count :: "db_session \<Rightarrow> nat" where
  "get_active_keys_count db =
     length (filter (\<lambda>k. ak_service k = ''transcript_api'' \<and> ak_status k = ''active'')
               (api_keys db))"

text \<open>The primary key that autoincrement gives to a new row.\<close>

definition next_id :: "ApiKey list \<Rightarrow> nat" where
  "next_id rows = Suc (fold max (map ak_id rows) 0)"

section \<open>The account provisioning workflow (scripts/transcript\_manager.py)\<close>

text \<open>The outcome of one GET to the tag-addressed mailbox API, inside
  \<open>wait_for_testmail_message\<close>.\<close>

datatype poll_outcome = PollJson json | PollTimeout | PollException

text \<open>
  The world outside, for one run of the workflow. Every helper wraps its whole body in
  \<open>try ... except Exception\<close> and returns None or False on failure, so a helper is
  given by the value it returns. The three mailbox readers return the \<open>data\<close> member of
  the payload as it came, which the workflow then inspects itself.
  \<open>extract_otp_from_html_result\<close> and \<open>find_six_digits_result\<close> stand for the two regular
  expressions.
\<close>

record reg_env =
  create_temp_email_result :: "(string \<times> json) option"
  create_testmail_email_result :: "(string \<times> string) option"
  generate_random_password_result :: string
  register_account_result :: bool
  login_account_result :: "string option"
  send_verification_otp_result :: bool
  testmail_get :: "nat \<Rightarrow> poll_outcome"
  get_email_list_result :: "json option"
  get_email_detail_result :: "json option"
  get_email_message_result :: "json option"
  extract_otp_from_html_result :: "string \<Rightarrow> string option"
  find_six_digits_result :: "string \<Rightarrow> string option"
  verify_email_with_otp_result :: bool
  get_api_key_from_account_result :: "string option"
  commit_succeeds :: bool

text \<open>What one poll of \<open>wait_for_testmail_message\<close> amounts to.\<close>

datatype poll_step = Found json | NoEmailYet | ApiError | PollFailed

text \<open>
  The body of the \<open>try\<close> on a decoded payload: \<open>data.get('result') == 'success'\<close>, then
  \<open>emails = data.get('emails', [])\<close> and \<open>emails[0]\<close>. Whatever raises there is caught by
  the \<open>except Exception\<close> of the loop (\<open>PollFailed\<close>).
\<close>

definition poll_payload :: "json \<Rightarrow> poll_step" where
  "poll_payload data =
     (case data of
        JObj members \<Rightarrow>
          if map_of members ''result'' = Some (JStr ''success'') then
            (let emails = (case map_of members ''emails'' of None \<Rightarrow> JArr [] | Some v \<Rightarrow> v) in
             if py_truthy emails then
               (case py_first emails of Inl e \<Rightarrow> PollFailed | Inr m \<Rightarrow> Found m)
             else NoEmailYet)
          else ApiError
      | _ \<Rightarrow> PollFailed)"

definition poll_once :: "reg_env \<Rightarrow> nat \<Rightarrow> poll_step" where
  "poll_once env n =
     (case testmail_get env n of
        PollJson data \<Rightarrow> poll_payload data
      | PollTimeout \<Rightarrow> PollFailed
      | PollException \<Rightarrow> PollFailed)"

text \<open>\<open>time.sleep(secs)\<close> raises ValueError for a negative interval. A non-negative
  interval is taken to be within the range of the platform's timer.\<close>

definition time_sleep :: "int \<Rightarrow> py_error option" where
  "time_sleep secs = (if secs < 0 then Some ValueError else None)"

text \<open>
  The loop \<open>for attempt in range(1, max_attempts + 1)\<close>: what the function returns or
  raises, and the number of GETs sent (\<open>polls\<close>, which the source does not keep). An
  empty inbox on the last attempt falls out of the loop; a failed request on the last
  attempt returns None at once. Before every other attempt the loop sleeps. When
  \<open>time.sleep\<close> raises after an empty inbox, inside the \<open>try\<close>, the handler
  \<open>except Exception\<close> sleeps again and the exception of that call leaves the function,
  as does the exception of a sleep in a handler after a failed request.
\<close>

function wait_loop ::
    "reg_env \<Rightarrow> int \<Rightarrow> int \<Rightarrow> int \<Rightarrow> nat \<Rightarrow> (py_error + json option) \<times> nat" where
  "wait_loop env poll_interval attempt max_attempts polls =
     (if attempt > max_attempts then (Inr None, polls)
      else
        (case poll_once env polls of
           Found m \<Rightarrow> (Inr (Some m), polls + 1)
         | NoEmailYet \<Rightarrow>
             if attempt < max_attempts then
               (case time_sleep poll_interval of
                  Some e \<Rightarrow> (Inl e, polls + 1)
                | None \<Rightarrow> wait_loop env poll_interval (attempt + 1) max_attempts (polls + 1))
             else wait_loop env poll_interval (attempt + 1) max_attempts (polls + 1)
         | ApiError \<Rightarrow> (Inr None, polls + 1)
         | PollFailed \<Rightarrow>
             if attempt < max_attempts then
               (case time_sleep poll_interval of
                  Some e \<Rightarrow> (Inl e, polls + 1)
                | None \<Rightarrow> wait_loop env poll_interval (attempt + 1) max_attempts (polls + 1))
             else (Inr None, polls + 1)))"
  by pat_completeness auto
termination
  by (relation "measure (\<lambda>(env, poll_interval, attempt, max_attempts, polls).
                   nat (max_attempts + 1 - attempt))")
     auto

declare wait_loop.simps [simp del]

text \<open>\<open>max_attempts = max_wait // poll_interval\<close> is computed outside any \<open>try\<close>, before
  the first poll.\<close>

definition wait_for_testmail_message ::
    "reg_env \<Rightarrow> int \<Rightarrow> int \<Rightarrow> (py_error + json option) \<times> nat" where
  "wait_for_testmail_message env max_wait poll_interval =
     (if poll_interval = 0 then (Inl ZeroDivisionError, 0)
      else wait_loop env poll_interval 1 (max_wait div poll_interval) 0)"

text \<open>\<open>extract_otp_from_html\<close> on a message body: a body that is not a string makes
  \<open>re.search\<close> raise, which the helper catches.\<close>

definition extract_otp_from_html :: "reg_env \<Rightarrow> json \<Rightarrow> string option" where
  "extract_otp_from_html env html_content =
     (case html_content of JStr s \<Rightarrow> extract_otp_from_html_result env s | _ \<Rightarrow> None)"

definition extract_otp_from_testmail :: "reg_env \<Rightarrow> json \<Rightarrow> string option" where
  "extract_otp_from_testmail env email_data =
     (case email_data of
        JObj members \<Rightarrow>
          (let html_content = (case map_of members ''html'' of None \<Rightarrow> JStr [] | Some v \<Rightarrow> v);
               text_content = (case map_of members ''text'' of None \<Rightarrow> JStr [] | Some v \<Rightarrow> v);
               from_html = (if py_truthy html_content then extract_otp_from_html env html_content
                            else None)
           in if from_html \<noteq> None \<and> from_html \<noteq> Some [] then from_html
              else if py_truthy text_content then
                (case text_content of JStr s \<Rightarrow> find_six_digits_result env s | _ \<Rightarrow> None)
              else None)
      | _ \<Rightarrow> None)"

text \<open>\<open>for e in email_list: if e.get('id') == temp_email_id: our_email = e; break\<close>.\<close>

fun find_our_email :: "json \<Rightarrow> json list \<Rightarrow> py_error + json option" where
  "find_our_email temp_email_id [] = Inr None"
| "find_our_email temp_email_id (e # es) =
     (case py_dict_get e ''id'' of
        Inl err \<Rightarrow> Inl err
      | Inr v \<Rightarrow> if py_eq v temp_email_id then Inr (Some e) else find_our_email temp_email_id es)"

text \<open>
  Steps 5 to 9 on the primary mailbox provider: the OTP, None where the source logs a
  failure and returns None, or the exception that escapes (nothing here is inside a
  \<open>try\<close>).
\<close>

definition otp_via_tempmail :: "reg_env \<Rightarrow> json \<Rightarrow> py_error + string option" where
  "otp_via_tempmail env temp_email_id =
     (case get_email_list_result env of
        None \<Rightarrow> Inr None
      | Some email_list \<Rightarrow>
          if \<not> py_truthy email_list then Inr None
          else
            (case py_iter email_list of
               Inl err \<Rightarrow> Inl err
             | Inr es \<Rightarrow>
                 (case find_our_email temp_email_id es of
                    Inl err \<Rightarrow> Inl err
                  | Inr None \<Rightarrow> Inr None
                  | Inr (Some our_email) \<Rightarrow>
                      if \<not> py_truthy our_email then Inr None
                      else
                        (case get_email_detail_result env of
                           None \<Rightarrow> Inr None
                         | Some inbox_data \<Rightarrow>
                             if \<not> py_truthy inbox_data then Inr None
                             else
                               (case py_dict_get_default inbox_data ''items'' (JArr []) of
                                  Inl err \<Rightarrow> Inl err
                                | Inr items \<Rightarrow>
                                    if \<not> py_truthy items then Inr None
                                       else
                                         (case py_first items of
                                            Inl err \<Rightarrow> Inl err
                                          | Inr first_message \<Rightarrow>
                                              (case py_dict_get first_message ''id'' of
                                                 Inl err \<Rightarrow> Inl err
                                               | Inr message_id \<Rightarrow>
                                                   if \<not> py_truthy message_id then Inr None
                                                   else
                                                     (case get_email_message_result env of
                                                        None \<Rightarrow> Inr None
                                                      | Some message_body \<Rightarrow>
                                                          if \<not> py_truthy message_body then Inr None
                                                          else Inr (extract_otp_from_html env message_body)))))))))"

text \<open>Steps 5 to 9 on the secondary mailbox provider.\<close>

definition otp_via_testmail :: "reg_env \<Rightarrow> py_error + string option" where
  "otp_via_testmail env =
     (case wait_for_testmail_message env 60 10 of
        (Inl err, polls) \<Rightarrow> Inl err
      | (Inr None, polls) \<Rightarrow> Inr None
      | (Inr (Some email_data), polls) \<Rightarrow>
          if \<not> py_truthy email_data then Inr None
          else Inr (extract_otp_from_testmail env email_data))"

text \<open>
  \<open>auto_register_and_save_key\<close>: what it returns or raises, and the store afterwards.
  The only write to the store is step 12; when its commit fails the session is rolled
  back.
\<close>

definition auto_register_and_save_key ::
    "reg_env \<Rightarrow> db_session \<Rightarrow> (py_error + ApiKey option) \<times> db_session" where
  "auto_register_and_save_key env db =
     (let mailbox =
            (case create_temp_email_result env of
               Some (email, temp_email_id) \<Rightarrow> Some (email, Some temp_email_id)
             | None \<Rightarrow>
                 (case create_testmail_email_result env of
                    Some (email, email_tag) \<Rightarrow> Some (email, None)
                  | None \<Rightarrow> None))
      in case mailbox of
           None \<Rightarrow> (Inr None, db)
         | Some (email, temp_email_id) \<Rightarrow>
             let password = generate_random_password_result env in
             if \<not> register_account_result env then (Inr None, db)
             else
               (case login_account_result env of
                  None \<Rightarrow> (Inr None, db)
                | Some access_token \<Rightarrow>
                    if access_token = [] then (Inr None, db)
                    else if \<not> send_verification_otp_result env then (Inr None, db)
                    else
                      (case (case temp_email_id of
                               None \<Rightarrow> otp_via_testmail env
                             | Some tid \<Rightarrow> otp_via_tempmail env tid) of
                         Inl err \<Rightarrow> (Inl err, db)
                       | Inr None \<Rightarrow> (Inr None, db)
                       | Inr (Some otp_code) \<Rightarrow>
                           if otp_code = [] then (Inr None, db)
                           else if \<not> verify_email_with_otp_result env then (Inr None, db)
                           else
                             (case get_api_key_from_account_result env of
                                None \<Rightarrow> (Inr None, db)
                              | Some api_key \<Rightarrow>
                                  if api_key = [] then (Inr None, db)
                                  else if \<not> commit_succeeds env then (Inr None, db)
                                  else
                                    let new_key =
                                          \<lparr>ak_id = next_id (api_keys db),
                                           ak_service = ''transcript_api'',
                                           ak_api_key = api_key,
                                           ak_email = Some email,
                                           ak_password = Some password,
                                           ak_status = ''active'',
                                           ak_usage_count = Some 0,
                                           ak_disabled_reason = None,
                                           ak_last_used = None\<rparr>
                                    in (Inr (Some new_key),
                                        db\<lparr>api_keys := api_keys db @ [new_key]\<rparr>)))))"

section \<open>Fetching a transcript (scripts/transcript\_manager.py)\<close>

text \<open>
  The outcome of the GET of one attempt together with the decoding of its body: a
  response with its status code and, for a status below 400, its decoded body; a
  \<open>RequestException\<close>; or any other exception.
\<close>

datatype transcript_outcome =
    TResponse nat json
  | TRequestException
  | TOtherException

text \<open>
  The world outside, indexed by the attempt: what the provisioning workflow meets when
  that attempt starts it, the outcome of that attempt's GET, and the clock.
  \<open>float_of_string\<close> is Python's \<open>float\<close> on a string (None where it raises ValueError).
\<close>

record transcript_env =
  registration :: "nat \<Rightarrow> reg_env"
  transcript_get :: "nat \<Rightarrow> transcript_outcome"
  utcnow :: "nat \<Rightarrow> nat"
  float_of_string :: "string \<Rightarrow> float option"

record transcript_entry =
  te_start :: float
  te_duration :: float
  te_text :: json

text \<open>\<open>float(x)\<close>; None where it raises (OverflowError on an \<open>int\<close> beyond the floats,
  ValueError on a string that is no number, TypeError on anything else).\<close>

definition py_float :: "transcript_env \<Rightarrow> json \<Rightarrow> float option" where
  "py_float env x =
     (case x of
        JInt i \<Rightarrow> (case int_to_float i of Inl e \<Rightarrow> None | Inr y \<Rightarrow> Some y)
      | JFloat y \<Rightarrow> Some y
      | JBool b \<Rightarrow> Some (if b then float_round 1 else 0)
      | JStr s \<Rightarrow> float_of_string env s
      | _ \<Rightarrow> None)"

text \<open>\<open>entry.get(k1, entry.get(k2, d))\<close>.\<close>

definition entry_field :: "(string \<times> json) list \<Rightarrow> string \<Rightarrow> string \<Rightarrow> json \<Rightarrow> json" where
  "entry_field members k1 k2 d =
     (case map_of members k1 of
        Some v \<Rightarrow> v
      | None \<Rightarrow> (case map_of members k2 of Some v \<Rightarrow> v | None \<Rightarrow> d))"

text \<open>The loop over \<open>transcript_data\<close>: entries that are not objects are skipped; None
  where a conversion raises.\<close>

fun convert_entries :: "transcript_env \<Rightarrow> json list \<Rightarrow> transcript_entry list option" where
  "convert_entries env [] = Some []"
| "convert_entries env (JObj members # es) =
     (case py_float env (entry_field members ''start'' ''offset'' (JInt 0)) of
        None \<Rightarrow> None
      | Some a \<Rightarrow>
          (case py_float env (entry_field members ''duration'' ''dur'' (JInt 0)) of
             None \<Rightarrow> None
           | Some b \<Rightarrow>
               (case convert_entries env es of
                  None \<Rightarrow> None
                | Some rest \<Rightarrow>
                    Some (\<lparr>te_start = a, te_duration = b,
                           te_text = entry_field members ''text'' ''content'' (JStr [])\<rparr> # rest))))"
| "convert_entries env (_ # es) = convert_entries env es"

text \<open>
  What the code does with the decoded body of a response below 400: return the
  transcript, return None (empty transcript, an \<open>error\<close> member, or an exception caught
  by \<open>except Exception\<close>), or fall through to the next iteration of the loop.
\<close>

datatype parse_result = Transcript "transcript_entry list" | ReturnNone | FallThrough

definition parse_transcript :: "transcript_env \<Rightarrow> json \<Rightarrow> parse_result" where
  "parse_transcript env data =
     (case py_in ''transcript'' data of
        Inl err \<Rightarrow> ReturnNone
      | Inr True \<Rightarrow>
          (case py_item data ''transcript'' of
             Inl err \<Rightarrow> ReturnNone
           | Inr transcript_data \<Rightarrow>
               (case (case transcript_data of JArr es \<Rightarrow> convert_entries env es | _ \<Rightarrow> Some []) of
                  None \<Rightarrow> ReturnNone
                | Some [] \<Rightarrow> ReturnNone
                | Some (e # es) \<Rightarrow> Transcript (e # es)))
      | Inr False \<Rightarrow>
          (case py_in ''error'' data of
             Inl err \<Rightarrow> ReturnNone
           | Inr True \<Rightarrow> ReturnNone
           | Inr False \<Rightarrow> FallThrough))"

text \<open>The store, and two things that the source does not keep: the number of loop
  iterations started, and the outcomes of the requests sent so far, in order.\<close>

record fetch_state =
  session :: db_session
  iterations :: nat
  requests :: "transcript_outcome list"

text \<open>One iteration of the loop ends in a return, a raise, or the next iteration.\<close>

datatype fetch_step =
    FReturn "transcript_entry list option" fetch_state
  | FContinue fetch_state
  | FRaise py_error fetch_state

definition error_msg :: "nat \<Rightarrow> string" where
  "error_msg status_code =
     (if status_code = 401 then ''Unauthorized''
      else if status_code = 402 then ''Quota exceeded''
      else if status_code = 403 then ''Forbidden''
      else ''Rate limit'')"

text \<open>What the iteration does with the outcome of its request, sent with the
  credential \<open>key_obj\<close>.\<close>

definition fetch_response ::
    "transcript_env \<Rightarrow> int \<Rightarrow> int \<Rightarrow> ApiKey \<Rightarrow> fetch_state \<Rightarrow> fetch_step" where
  "fetch_response env max_attempts attempt key_obj st =
     (case transcript_get env (nat attempt) of
        TResponse status_code data \<Rightarrow>
          if status_code \<in> {401, 402, 403, 429} then
            let st1 = st\<lparr>session := disable_key (session st) (ak_id key_obj) (error_msg status_code)\<rparr> in
            if attempt < max_attempts - 1 then FContinue st1 else FReturn None st1
          else if status_code = 404 then
            FReturn None
              (st\<lparr>session := mark_key_used (session st) (ak_id key_obj) (utcnow env (nat attempt))\<rparr>)
          else if status_code \<ge> 400 then FReturn None st
          else
            (case parse_transcript env data of
               Transcript transcript \<Rightarrow>
                 FReturn (Some transcript)
                   (st\<lparr>session := mark_key_used (session st) (ak_id key_obj) (utcnow env (nat attempt))\<rparr>)
             | ReturnNone \<Rightarrow> FReturn None st
             | FallThrough \<Rightarrow> FContinue st)
      | TRequestException \<Rightarrow>
          if attempt < max_attempts - 1 then FContinue st else FReturn None st
      | TOtherException \<Rightarrow> FReturn None st)"

text \<open>The iteration from the request on: the request is sent (and logged), and its
  outcome handled.\<close>

definition fetch_request ::
    "transcript_env \<Rightarrow> int \<Rightarrow> int \<Rightarrow> ApiKey \<Rightarrow> fetch_state \<Rightarrow> fetch_step" where
  "fetch_request env max_attempts attempt key_obj st =
     fetch_response env max_attempts attempt key_obj
       (st\<lparr>requests := requests st @ [transcript_get env (nat attempt)]\<rparr>)"

text \<open>One iteration: get the least recently used active credential, or provision one
  (outside the \<open>try\<close>), then send the request.\<close>

definition fetch_attempt ::
    "transcript_env \<Rightarrow> int \<Rightarrow> int \<Rightarrow> fetch_state \<Rightarrow> fetch_step" where
  "fetch_attempt env max_attempts attempt st =
     (case get_active_key (session st) of
        Some key_obj \<Rightarrow> fetch_request env max_attempts attempt key_obj st
      | None \<Rightarrow>
          (case auto_register_and_save_key (registration env (nat attempt)) (session st) of
             (Inl err, db1) \<Rightarrow> FRaise err (st\<lparr>session := db1\<rparr>)
           | (Inr None, db1) \<Rightarrow> FContinue (st\<lparr>session := db1\<rparr>)
           | (Inr (Some key_obj), db1) \<Rightarrow>
               fetch_request env max_attempts attempt key_obj (st\<lparr>session := db1\<rparr>)))"

text \<open>The loop \<open>for attempt in range(max_attempts)\<close>, entered at \<open>attempt\<close>.\<close>

function fetch_loop ::
    "transcript_env \<Rightarrow> int \<Rightarrow> int \<Rightarrow> fetch_state
       \<Rightarrow> (py_error + transcript_entry list option) \<times> fetch_state" where
  "fetch_loop env max_attempts attempt st =
     (if attempt \<ge> max_attempts then (Inr None, st)
      else
        (case fetch_attempt env max_attempts attempt (st\<lparr>iterations := iterations st + 1\<rparr>) of
           FReturn transcript st1 \<Rightarrow> (Inr transcript, st1)
         | FRaise err st1 \<Rightarrow> (Inl err, st1)
         | FContinue st1 \<Rightarrow> fetch_loop env max_attempts (attempt + 1) st1))"
  by pat_completeness auto
termination
  by (relation "measure (\<lambda>(env, max_attempts, attempt, st). nat (max_attempts - attempt))") auto

declare fetch_loop.simps [simp del]

definition fetch_transcript_with_retry ::
    "transcript_env \<Rightarrow> db_session \<Rightarrow> int
       \<Rightarrow> (py_error + transcript_entry list option) \<times> fetch_state" where
  "fetch_transcript_with_retry env db_session max_attempts =
     fetch_loop env max_attempts 0 \<lparr>session = db_session, iterations = 0, requests = []\<rparr>"

section \<open>Segment validation: parse\_gemini\_response (scripts/process\_pipeline.py)\<close>

text \<open>
  \<open>str.strip()\<close> removes white space at both ends. A character of a string is a code
  point below 256; of these, \<open>str.isspace\<close> holds of the space, of the control
  characters U+0009 to U+000D and U+001C to U+001F, of U+0085 (next line) and of U+00A0
  (no-break space).
\<close>

definition is_space :: "char \<Rightarrow> bool" where
  "is_space c \<longleftrightarrow> c \<in> {CHR 0x20, CHR 0x09, CHR 0x0A, CHR 0x0B, CHR 0x0C, CHR 0x0D,
                          CHR 0x1C, CHR 0x1D, CHR 0x1E, CHR 0x1F, CHR 0x85, CHR 0xA0}"

definition strip :: "string \<Rightarrow> string" where
  "strip s = rev (dropWhile is_space (rev (dropWhile is_space s)))"

definition startswith :: "string \<Rightarrow> string \<Rightarrow> bool" where
  "startswith s prefix \<longleftrightarrow> take (length prefix) s = prefix"

definition endswith :: "string \<Rightarrow> string \<Rightarrow> bool" where
  "endswith s suffix \<longleftrightarrow> length suffix \<le> length s \<and> drop (length s - length suffix) s = suffix"

definition code_fence :: string where
  "code_fence = [CHR 0x60, CHR 0x60, CHR 0x60]"

text \<open>The removal of a fenced code block around the text.\<close>

definition remove_code_block :: "string \<Rightarrow> string" where
  "remove_code_block text0 =
     (let text1 = strip text0;
          text2 = (if startswith text1 (code_fence @ ''json'') then drop 7 text1
                   else if startswith text1 code_fence then drop 3 text1
                   else text1);
          text3 = (if endswith text2 code_fence then take (length text2 - 3) text2 else text2)
      in strip text3)"

text \<open>\<open>response['candidates'][0]['content']['parts'][0]['text']\<close>.\<close>

definition response_text :: "json \<Rightarrow> py_error + json" where
  "response_text response =
     (case py_item response ''candidates'' of
        Inl e \<Rightarrow> Inl e
      | Inr candidates \<Rightarrow>
          (case py_first candidates of
             Inl e \<Rightarrow> Inl e
           | Inr candidate \<Rightarrow>
               (case py_item candidate ''content'' of
                  Inl e \<Rightarrow> Inl e
                | Inr content \<Rightarrow>
                    (case py_item content ''parts'' of
                       Inl e \<Rightarrow> Inl e
                     | Inr parts \<Rightarrow>
                         (case py_first parts of
                            Inl e \<Rightarrow> Inl e
                          | Inr part \<Rightarrow> py_item part ''text'')))))"

text \<open>\<open>all(k in seg for k in ['start', 'end', 'title', 'description'])\<close>: the first
  membership test raises on a value that has no \<open>in\<close>; the others cannot raise then.\<close>

definition all_fields_in :: "json \<Rightarrow> py_error + bool" where
  "all_fields_in seg =
     (case py_in ''start'' seg of
        Inl e \<Rightarrow> Inl e
      | Inr b \<Rightarrow>
          Inr (b \<and> py_in ''end'' seg = Inr True \<and> py_in ''title'' seg = Inr True
                 \<and> py_in ''description'' seg = Inr True))"

text \<open>
  The body of the validation loop for one entry: whether it is appended to
  \<open>valid_segments\<close>, or the exception it raises. \<open>seg['end'] - seg['start']\<close> is
  Python's subtraction: it needs an object whose two members are numbers, and an \<open>int\<close>
  that meets a float must be within the floats. \<open>duration >= 120\<close> then compares the
  result, rounded if it is a float, with 120. Both branches end with a log line, an
  f-string that writes the duration, and for an accepted segment its title before it.
\<close>

definition check_segment :: "json \<Rightarrow> py_error + bool" where
  "check_segment seg =
     (case all_fields_in seg of
        Inl e \<Rightarrow> Inl e
      | Inr False \<Rightarrow> Inr False
      | Inr True \<Rightarrow>
          (case py_item seg ''end'' of
             Inl e \<Rightarrow> Inl e
           | Inr seg_end \<Rightarrow>
               (case py_item seg ''start'' of
                  Inl e \<Rightarrow> Inl e
                | Inr seg_start \<Rightarrow>
                    (case (py_num seg_end, py_num seg_start) of
                       (Some a, Some b) \<Rightarrow>
                         (case py_sub a b of
                            Inl e \<Rightarrow> Inl e
                          | Inr duration \<Rightarrow>
                              if py_ge_int duration 120 then
                                (case py_item seg ''title'' of
                                   Inl e \<Rightarrow> Inl e
                                 | Inr title \<Rightarrow>
                                     if json_str_raises title \<or> py_str_raises duration
                                     then Inl ValueError else Inr True)
                              else if py_str_raises duration then Inl ValueError
                              else Inr False)
                     | _ \<Rightarrow> Inl TypeError))))"

fun validate_segments :: "json list \<Rightarrow> py_error + json list" where
  "validate_segments [] = Inr []"
| "validate_segments (seg # segments) =
     (case check_segment seg of
        Inl e \<Rightarrow> Inl e
      | Inr ok \<Rightarrow>
          (case validate_segments segments of
             Inl e \<Rightarrow> Inl e
           | Inr valid_segments \<Rightarrow> Inr (if ok then seg # valid_segments else valid_segments)))"

text \<open>
  \<open>parse_gemini_response\<close>, with \<open>json.loads\<close> as a parameter (None where it raises:
  JSONDecodeError has its own handler, which returns None as the outer handler does
  for every other exception). Every exception inside ends in \<open>return None\<close>.
\<close>

definition parse_gemini_response :: "(string \<Rightarrow> json option) \<Rightarrow> json \<Rightarrow> json list option" where
  "parse_gemini_response json_loads response =
     (case response_text response of
        Inr (JStr text0) \<Rightarrow>
          (case json_loads (remove_code_block text0) of
             None \<Rightarrow> None
           | Some data \<Rightarrow>
               (case py_in ''segments'' data of
                  Inr True \<Rightarrow>
                    (case py_item data ''segments'' of
                       Inl e \<Rightarrow> None
                     | Inr segments \<Rightarrow>
                         (case py_iter segments of
                            Inl e \<Rightarrow> None
                          | Inr entries \<Rightarrow>
                              (case validate_segments entries of
                                 Inl e \<Rightarrow> None
                               | Inr valid_segments \<Rightarrow>
                                   if valid_segments \<noteq> [] then Some valid_segments else None)))
                | _ \<Rightarrow> None))
      | _ \<Rightarrow> None)"

text \<open>The two notions of the claim about a segment: it is an object with the four
  fields, and its duration \<open>end - start\<close>, the number that Python's subtraction gives
  where both are numbers and it does not raise.\<close>

definition has_four_fields :: "json \<Rightarrow> bool" where
  "has_four_fields seg =
     (case seg of
        JObj members \<Rightarrow>
          ''start'' \<in> fst ` set members \<and> ''end'' \<in> fst ` set members \<and>
          ''title'' \<in> fst ` set members \<and> ''description'' \<in> fst ` set members
      | _ \<Rightarrow> False)"

definition segment_duration :: "json \<Rightarrow> py_number option" where
  "segment_duration seg =
     (case seg of
        JObj members \<Rightarrow>
          (case (map_of members ''end'', map_of members ''start'') of
             (Some seg_end, Some seg_start) \<Rightarrow>
               (case (py_num seg_end, py_num seg_start) of
                  (Some a, Some b) \<Rightarrow>
                    (case py_sub a b of Inl e \<Rightarrow> None | Inr duration \<Rightarrow> Some duration)
                | _ \<Rightarrow> None)
           | _ \<Rightarrow> None)
      | _ \<Rightarrow> None)"

section \<open>The per-item orchestrator: process\_single\_video (scripts/process\_pipeline.py)\<close>

text \<open>A row of \<open>playlist_videos\<close>: the item, with its four phase statuses.\<close>

record PlaylistVideo =
  video_id :: string
  video_url :: string
  download_status :: string
  download_error :: "string option"
  local_path :: "string option"
  file_size :: "nat option"
  transcript_status :: string
  analysis_status :: string
  conversion_status :: string
  shorts_count :: nat

text \<open>
  The world outside, for one item. \<open>download_video\<close>, \<open>check_video_availability\<close>,
  \<open>analyze_transcript\<close>, \<open>cut_video_clip\<close> and \<open>upload_file\<close> catch every exception in
  their own bodies, so each is given by what it returns (the availability check by the
  truth value of its result; the cutter and the uploader as functions of the clip's
  path). \<open>getsize_result\<close> is None where \<open>os.path.getsize\<close> raises.
\<close>

record pipeline_env =
  transcripts :: transcript_env
  temp_dir :: string
  download_video_result :: "string option"
  getsize_result :: "nat option"
  check_video_availability_result :: bool
  analyze_transcript_result :: "json list option"
  sanitize_filename_result :: "string \<Rightarrow> string"
  cut_video_clip_result :: "string \<Rightarrow> bool"
  upload_file_result :: "string \<Rightarrow> (string \<times> string) option"

text \<open>
  The state of one run: the item; the successive states of the item, one after every
  group of status assignments (the first is the item as it was given); the session; the
  \<open>stats\<close> dictionary; the number of calls of \<open>download_video\<close>; and whether the
  downloaded file was removed.
\<close>

record run =
  item :: PlaylistVideo
  observed :: "PlaylistVideo list"
  store :: db_session
  stat_success :: bool
  stat_shorts_created :: nat
  stat_error :: "string option"
  stat_skipped :: bool
  download_calls :: nat
  file_removed :: bool

definition assign :: "run \<Rightarrow> PlaylistVideo \<Rightarrow> run" where
  "assign r pv = r\<lparr>item := pv, observed := observed r @ [pv]\<rparr>"

text \<open>The handler of the outer \<open>try\<close>: the error is recorded, the statuses stay.\<close>

definition unexpected :: "run \<Rightarrow> run" where
  "unexpected r = r\<lparr>stat_error := Some ''exception''\<rparr>"

text \<open>\<open>db_session.merge(NoTranscriptVideo(video_id, reason))\<close>: insert, or replace the row
  with that primary key.\<close>

definition merge_no_transcript :: "db_session \<Rightarrow> string \<Rightarrow> string \<Rightarrow> db_session" where
  "merge_no_transcript dbs vid reason =
     dbs\<lparr>no_transcript_videos :=
           (vid, reason) # filter (\<lambda>row. fst row \<noteq> vid) (no_transcript_videos dbs)\<rparr>"

text \<open>Decimal digits of a number, for the clip's file name.\<close>

fun str_nat :: "nat \<Rightarrow> string" where
  "str_nat n =
     (if n < 10 then [''0123456789'' ! n]
      else str_nat (n div 10) @ [''0123456789'' ! (n mod 10)])"

declare str_nat.simps [simp del]

definition path_join :: "string \<Rightarrow> string \<Rightarrow> string" where
  "path_join a b = a @ ''/'' @ b"

record created_short =
  cs_filename :: string
  cs_path :: string
  cs_segment :: json

text \<open>
  Step 5, the loop \<open>for i, seg in enumerate(segments, 1)\<close>: the clips that were cut, or
  the exception raised (\<open>sanitize_filename\<close> needs a string title).
\<close>

fun cut_clips :: "pipeline_env \<Rightarrow> string \<Rightarrow> nat \<Rightarrow> json list \<Rightarrow> py_error + created_short list" where
  "cut_clips env vid i [] = Inr []"
| "cut_clips env vid i (seg # segments) =
     (case py_item seg ''title'' of
        Inl e \<Rightarrow> Inl e
      | Inr (JStr title0) \<Rightarrow>
          (let title = sanitize_filename_result env title0;
               output_filename = vid @ ''_'' @ str_nat i @ ''_'' @ title @ ''.mp4'';
               output_path = path_join (path_join (temp_dir env) ''shorts'') output_filename
           in case py_item seg ''start'' of
                Inl e \<Rightarrow> Inl e
              | Inr seg_start \<Rightarrow>
                  (case py_item seg ''end'' of
                     Inl e \<Rightarrow> Inl e
                   | Inr seg_end \<Rightarrow>
                       (let success = cut_video_clip_result env output_path
                        in case cut_clips env vid (i + 1) segments of
                             Inl e \<Rightarrow> Inl e
                           | Inr created_shorts \<Rightarrow>
                               Inr (if success
                                    then \<lparr>cs_filename = output_filename, cs_path = output_path,
                                          cs_segment = seg\<rparr> # created_shorts
                                    else created_shorts))))
      | Inr _ \<Rightarrow> Inl TypeError)"

text \<open>The \<open>Video\<close> record of an uploaded clip, or the exception raised while it is built
  (\<open>end - start\<close> needs numbers, \<open>description[:500]\<close> a string or a list).\<close>

definition make_video :: "string \<Rightarrow> created_short \<Rightarrow> string \<Rightarrow> string \<Rightarrow> py_error + Video" where
  "make_video vid short r2_key public_url =
     (case py_item (cs_segment short) ''title'' of
        Inl e \<Rightarrow> Inl e
      | Inr title \<Rightarrow>
          (case py_item (cs_segment short) ''description'' of
             Inl e \<Rightarrow> Inl e
           | Inr description \<Rightarrow>
               (case py_item (cs_segment short) ''end'' of
                  Inl e \<Rightarrow> Inl e
                | Inr seg_end \<Rightarrow>
                    (case py_item (cs_segment short) ''start'' of
                       Inl e \<Rightarrow> Inl e
                     | Inr seg_start \<Rightarrow>
                         (case (py_num seg_end, py_num seg_start) of
                            (Some a, Some b) \<Rightarrow>
                              (case py_sub a b of
                                 Inl e \<Rightarrow> Inl e
                               | Inr duration \<Rightarrow>
                                   (case description of
                                      JObj members \<Rightarrow> Inl TypeError
                                    | JInt x \<Rightarrow> Inl TypeError
                                    | JFloat x \<Rightarrow> Inl TypeError
                                    | JBool x \<Rightarrow> Inl TypeError
                                    | JNull \<Rightarrow> Inl TypeError
                                    | _ \<Rightarrow>
                                        Inr \<lparr>v_video_id = vid @ ''_'' @ cs_filename short,
                                             v_filename = cs_filename short,
                                             v_title = title,
                                             v_description = description,
                                             v_duration = duration,
                                             v_r2_url = public_url,
                                             v_r2_key = r2_key,
                                             v_uploaded_to_tiktok = False\<rparr>))
                          | _ \<Rightarrow> Inl TypeError)))))"

text \<open>
  Step 6, the loop over \<open>created_shorts\<close>: an uploaded clip is added to the session and
  counted in \<open>stats['shorts_created']\<close>. The result is the run so far, with the exception
  that ended the loop if there was one.
\<close>

fun upload_shorts :: "pipeline_env \<Rightarrow> string \<Rightarrow> created_short list \<Rightarrow> run \<Rightarrow> py_error option \<times> run" where
  "upload_shorts env vid [] r = (None, r)"
| "upload_shorts env vid (short # shorts) r =
     (case upload_file_result env (cs_path short) of
        None \<Rightarrow> upload_shorts env vid shorts r
      | Some (r2_key, public_url) \<Rightarrow>
          (case make_video vid short r2_key public_url of
             Inl e \<Rightarrow> (Some e, r)
           | Inr video_record \<Rightarrow>
               upload_shorts env vid shorts
                 (r\<lparr>store := (store r)\<lparr>videos := videos (store r) @ [video_record]\<rparr>,
                    stat_shorts_created := stat_shorts_created r + 1\<rparr>)))"

text \<open>Steps 5 and 6, after the analysis has produced \<open>segments\<close>.\<close>

definition cut_and_upload :: "pipeline_env \<Rightarrow> json list \<Rightarrow> run \<Rightarrow> run" where
  "cut_and_upload env segments r =
     (case cut_clips env (video_id (item r)) 1 segments of
        Inl e \<Rightarrow> unexpected r
      | Inr created_shorts \<Rightarrow>
          if created_shorts = [] then
            (assign r ((item r)\<lparr>conversion_status := ''failed''\<rparr>))
              \<lparr>stat_error := Some ''No shorts created''\<rparr>
          else
            let r1 = assign r ((item r)\<lparr>conversion_status := ''completed'',
                                         shorts_count := length created_shorts\<rparr>)
            in case upload_shorts env (video_id (item r1)) created_shorts r1 of
                 (Some e, r2) \<Rightarrow> unexpected r2
               | (None, r2) \<Rightarrow> r2\<lparr>file_removed := True, stat_success := True\<rparr>)"

text \<open>Steps 3 and 4, after the download has given \<open>video_path\<close>.\<close>

definition check_and_analyze :: "pipeline_env \<Rightarrow> run \<Rightarrow> run" where
  "check_and_analyze env r =
     (if \<not> check_video_availability_result env then
        (assign r ((item r)\<lparr>download_status := ''skipped'',
                             analysis_status := ''skipped'',
                             conversion_status := ''skipped'',
                             download_error := Some ''Video unavailable or inaccessible''\<rparr>))
          \<lparr>stat_error := Some ''Video unavailable'', stat_skipped := True, file_removed := True\<rparr>
      else
        (case analyze_transcript_result env of
           None \<Rightarrow>
             (assign r ((item r)\<lparr>analysis_status := ''failed''\<rparr>))
               \<lparr>stat_error := Some ''AI analysis failed''\<rparr>
         | Some segments \<Rightarrow>
             if segments = [] then
               (assign r ((item r)\<lparr>analysis_status := ''failed''\<rparr>))
                 \<lparr>stat_error := Some ''AI analysis failed''\<rparr>
             else
               cut_and_upload env segments
                 (assign r ((item r)\<lparr>analysis_status := ''completed''\<rparr>))))"

text \<open>Step 2, after a transcript has been obtained.\<close>

definition download_step :: "pipeline_env \<Rightarrow> run \<Rightarrow> run" where
  "download_step env r =
     (let r1 = (assign r ((item r)\<lparr>download_status := ''downloading''\<rparr>))
                 \<lparr>download_calls := download_calls r + 1\<rparr>
      in case download_video_result env of
           None \<Rightarrow>
             (assign r1 ((item r1)\<lparr>download_status := ''failed'',
                                    download_error := Some ''Download failed''\<rparr>))
               \<lparr>stat_error := Some ''Download failed''\<rparr>
         | Some video_path \<Rightarrow>
             if video_path = [] then
               (assign r1 ((item r1)\<lparr>download_status := ''failed'',
                                      download_error := Some ''Download failed''\<rparr>))
                 \<lparr>stat_error := Some ''Download failed''\<rparr>
             else
               (case getsize_result env of
                  None \<Rightarrow>
                    unexpected
                      (assign r1 ((item r1)\<lparr>download_status := ''completed'',
                                             local_path := Some video_path\<rparr>))
                | Some size_in_bytes \<Rightarrow>
                    check_and_analyze env
                      (assign r1 ((item r1)\<lparr>download_status := ''completed'',
                                             local_path := Some video_path,
                                             file_size := Some size_in_bytes\<rparr>))))"

text \<open>
  What the \<open>try\<close> around the transcript call sees: an \<open>HTTPError\<close> (with the status
  of its response, None when it carries no response), another exception, or the returned
  value.
\<close>

datatype transcript_step =
    HTTPErrorRaised "nat option"
  | OtherRaised py_error
  | TranscriptReturned "transcript_entry list option"

text \<open>Every phase set to \<open>skipped\<close>, and the item entered in \<open>no_transcript_videos\<close>.\<close>

definition skip_item :: "run \<Rightarrow> string option \<Rightarrow> string \<Rightarrow> string \<Rightarrow> run" where
  "skip_item r new_download_error reason stats_error =
     (assign r ((item r)\<lparr>download_status := ''skipped'',
                          transcript_status := ''skipped'',
                          analysis_status := ''skipped'',
                          conversion_status := ''skipped'',
                          download_error :=
                            (case new_download_error of
                               None \<Rightarrow> download_error (item r)
                             | Some text0 \<Rightarrow> Some text0)\<rparr>))
       \<lparr>store := merge_no_transcript (store r) (video_id (item r)) reason,
        stat_error := Some stats_error, stat_skipped := True\<rparr>"

text \<open>Step 1 from the outcome of the transcript call on, and the rest of the run.\<close>

definition after_transcript :: "pipeline_env \<Rightarrow> transcript_step \<Rightarrow> run \<Rightarrow> run" where
  "after_transcript env outcome r =
     (case outcome of
        HTTPErrorRaised response \<Rightarrow>
          if (case response of
                None \<Rightarrow> False
              | Some response_status \<Rightarrow> response_bool response_status \<and> response_status = 404)
          then
            skip_item r (Some ''Transcript API 404 - video unavailable'')
              ''Transcript API 404 error'' ''Transcript not found (404)''
          else unexpected r
      | OtherRaised e \<Rightarrow> unexpected r
      | TranscriptReturned transcript \<Rightarrow>
          if transcript = None \<or> transcript = Some [] then
            skip_item r None ''Transcript not available from API'' ''No transcript''
          else
            download_step env (assign r ((item r)\<lparr>transcript_status := ''completed''\<rparr>)))"

text \<open>What \<open>fetch_transcript_with_retry\<close> gives to that \<open>try\<close>: it never raises an
  \<open>HTTPError\<close>, since it reads the status code itself.\<close>

definition seen_by_caller :: "(py_error + transcript_entry list option) \<Rightarrow> transcript_step" where
  "seen_by_caller result =
     (case result of Inl e \<Rightarrow> OtherRaised e | Inr transcript \<Rightarrow> TranscriptReturned transcript)"

definition new_run :: "PlaylistVideo \<Rightarrow> db_session \<Rightarrow> run" where
  "new_run playlist_video dbs =
     \<lparr>item = playlist_video, observed = [playlist_video], store = dbs,
      stat_success = False, stat_shorts_created = 0, stat_error = None, stat_skipped = False,
      download_calls = 0, file_removed = False\<rparr>"

definition process_single_video :: "pipeline_env \<Rightarrow> PlaylistVideo \<Rightarrow> db_session \<Rightarrow> run" where
  "process_single_video env playlist_video dbs =
     (let r0 = new_run playlist_video dbs;
          r1 = assign r0 ((item r0)\<lparr>transcript_status := ''fetching''\<rparr>)
      in case fetch_transcript_with_retry (transcripts env) (store r1) 3 of
           (result, fetched) \<Rightarrow>
             after_transcript env (seen_by_caller result) (r1\<lparr>store := session fetched\<rparr>))"

text \<open>The answers of the transcript provider that the claims single out: not found, and
  a successful response with an empty transcript.\<close>

fun not_found :: "transcript_outcome \<Rightarrow> bool" where
  "not_found (TResponse status_code data) = (status_code = 404)"
| "not_found _ = False"

fun empty_but_successful :: "transcript_outcome \<Rightarrow> bool" where
  "empty_but_successful (TResponse status_code data) =
     (status_code < 400 \<and>
      (case data of
         JObj members \<Rightarrow> map_of members ''transcript'' = Some (JArr [])
       | _ \<Rightarrow> False))"
| "empty_but_successful _ = False"

definition ends_fetch :: "transcript_outcome \<Rightarrow> bool" where
  "ends_fetch outcome \<longleftrightarrow> not_found outcome \<or> empty_but_successful outcome"

text \<open>
  The order of the statuses of a phase: not started (0), in progress (1), ended (2).
  A phase moves forward from \<open>x\<close> to \<open>y\<close> when its rank does not decrease and an ended
  phase keeps its status. \<open>moves_forward\<close> relates an earlier and a later state of the
  item: every phase moves forward, except that an ended download may also go from
  \<open>completed\<close> to \<open>skipped\<close>. \<open>dependencies_met\<close> is the dependency condition on one
  state.
\<close>

definition rank :: "string \<Rightarrow> nat" where
  "rank s =
     (if s = ''completed'' \<or> s = ''failed'' \<or> s = ''skipped'' then 2
      else if s = ''fetching'' \<or> s = ''downloading'' then 1
      else 0)"

definition phase_forward :: "string \<Rightarrow> string \<Rightarrow> bool" where
  "phase_forward x y \<longleftrightarrow> rank x \<le> rank y \<and> (rank x = 2 \<longrightarrow> x = y)"

definition moves_forward :: "PlaylistVideo \<Rightarrow> PlaylistVideo \<Rightarrow> bool" where
  "moves_forward a b \<longleftrightarrow>
     phase_forward (transcript_status a) (transcript_status b) \<and>
     phase_forward (analysis_status a) (analysis_status b) \<and>
     phase_forward (conversion_status a) (conversion_status b) \<and>
     rank (download_status a) \<le> rank (download_status b) \<and>
     (rank (download_status a) = 2 \<longrightarrow>
        download_status a = download_status b \<or>
        (download_status a = ''completed'' \<and> download_status b = ''skipped''))"

definition dependencies_met :: "PlaylistVideo \<Rightarrow> bool" where
  "dependencies_met pv \<longleftrightarrow>
     (download_status pv = ''completed'' \<longrightarrow> transcript_status pv = ''completed'') \<and>
     (analysis_status pv = ''completed'' \<longrightarrow> download_status pv = ''completed'') \<and>
     (conversion_status pv = ''completed'' \<longrightarrow> analysis_status pv = ''completed'')"

definition all_pending :: "PlaylistVideo \<Rightarrow> bool" where
  "all_pending pv \<longleftrightarrow>
     download_status pv = ''pending'' \<and> transcript_status pv = ''pending'' \<and>
     analysis_status pv = ''pending'' \<and> conversion_status pv = ''pending''"

text \<open>The statuses of the four phases, in the order transcript, download, analysis,
  conversion; and the condition on the history of a run that the run maintains.\<close>

definition statuses :: "PlaylistVideo \<Rightarrow> string \<times> string \<times> string \<times> string" where
  "statuses pv =
     (transcript_status pv, download_status pv, analysis_status pv, conversion_status pv)"

definition history_ok :: "run \<Rightarrow> bool" where
  "history_ok r \<longleftrightarrow>
     observed r \<noteq> [] \<and> last (observed r) = item r \<and>
     sorted_wrt moves_forward (observed r) \<and> (\<forall>pv \<in> set (observed r). dependencies_met pv)"

text \<open>
  The clips recorded between two states of a run: the \<open>videos\<close> table has grown by
  \<open>new\<close>, \<open>stats['shorts_created']\<close> by their number, and every new record belongs
  to a clip that was cut and uploaded successfully.
\<close>

definition artifacts :: "pipeline_env \<Rightarrow> run \<Rightarrow> run \<Rightarrow> bool" where
  "artifacts env r r' \<longleftrightarrow>
     (\<exists>new. videos (store r') = videos (store r) @ new \<and>
            stat_shorts_created r' = stat_shorts_created r + length new \<and>
            (\<forall>v \<in> set new. \<exists>path r2_key public_url.
               cut_video_clip_result env path \<and>
               upload_file_result env path = Some (r2_key, public_url) \<and>
               v_r2_key v = r2_key \<and> v_r2_url v = public_url))"

section \<open>Operations on the transcript pool\<close>

text \<open>
  What the process does to the \<open>api_keys\<close> table: acquire a credential, record a use,
  disable a credential, or run the provisioning workflow. \<open>store_run\<close> gives the
  credentials that the acquisitions returned, in order, and the final store.
\<close>

datatype store_op =
    GetActiveKey
  | MarkKeyUsed nat nat
  | DisableKey nat string
  | Provision reg_env

fun store_step :: "db_session \<Rightarrow> store_op \<Rightarrow> ApiKey option \<times> db_session" where
  "store_step db GetActiveKey = (get_active_key db, db)"
| "store_step db (MarkKeyUsed key_id now) = (None, mark_key_used db key_id now)"
| "store_step db (DisableKey key_id reason) = (None, disable_key db key_id reason)"
| "store_step db (Provision env) = (None, snd (auto_register_and_save_key env db))"

fun store_run :: "db_session \<Rightarrow> store_op list \<Rightarrow> ApiKey list \<times> db_session" where
  "store_run db [] = ([], db)"
| "store_run db (op # ops) =
     (case store_step db op of
        (r, db1) \<Rightarrow>
          (case store_run db1 ops of
             (rs, db2) \<Rightarrow> ((case r of None \<Rightarrow> rs | Some k \<Rightarrow> k # rs), db2)))"

text \<open>A credential of the table that no acquisition can return: a row with the primary
  key \<open>i\<close> exists, and no row with that key is active.\<close>

definition retired :: "nat \<Rightarrow> ApiKey list \<Rightarrow> bool" where
  "retired i rows \<longleftrightarrow>
     (\<exists>k \<in> set rows. ak_id k = i) \<and> (\<forall>k \<in> set rows. ak_id k = i \<longrightarrow> ak_status k \<noteq> ''active'')"

section \<open>Concrete inputs\<close>

text \<open>Small inputs on which the theorems below are evaluated.\<close>

definition two_keys :: GeminiKeyManager where
  "two_keys = GeminiKeyManager_init [PlainKey ''k1'', PlainKey ''k2''] 0"

definition ai_start :: "GeminiKeyManager \<Rightarrow> ai_state" where
  "ai_start pool = \<lparr>key_manager = pool, gemini_posts = 0, hf_calls = 0, recursions = 0\<rparr>"

text \<open>A primary provider that answers every POST with the same status and an error
  body, and a secondary provider that is down.\<close>

definition always_status :: "nat \<Rightarrow> ai_env" where
  "always_status c =
     \<lparr>gemini_post = (\<lambda>n. GeminiResponse c (Some (JObj [(''error'', JStr ''refused'')]))),
      huggingface_post = (\<lambda>n. HfException), HUGGINGFACE_TOKEN = ''token''\<rparr>"

text \<open>A provisioning workflow in which no mailbox can be obtained.\<close>

definition no_registration :: reg_env where
  "no_registration =
     \<lparr>create_temp_email_result = None,
      create_testmail_email_result = None,
      generate_random_password_result = ''pw'',
      register_account_result = False,
      login_account_result = None,
      send_verification_otp_result = False,
      testmail_get = (\<lambda>n. PollTimeout),
      get_email_list_result = None,
      get_email_detail_result = None,
      get_email_message_result = None,
      extract_otp_from_html_result = (\<lambda>s. None),
      find_six_digits_result = (\<lambda>s. None),
      verify_email_with_otp_result = False,
      get_api_key_from_account_result = None,
      commit_succeeds = True\<rparr>"

text \<open>A transcript provider that gives the same outcome to every attempt.\<close>

definition always_outcome :: "transcript_outcome \<Rightarrow> transcript_env" where
  "always_outcome outcome =
     \<lparr>registration = (\<lambda>n. no_registration), transcript_get = (\<lambda>n. outcome),
      utcnow = (\<lambda>n. 100 + n), float_of_string = (\<lambda>s. None)\<rparr>"

definition key1 :: ApiKey where
  "key1 =
     \<lparr>ak_id = 1, ak_service = ''transcript_api'', ak_api_key = ''secret1'',
      ak_email = None, ak_password = None, ak_status = ''active'',
      ak_usage_count = Some 0, ak_disabled_reason = None, ak_last_used = None\<rparr>"

definition one_key_store :: db_session where
  "one_key_store = \<lparr>api_keys = [key1], no_transcript_videos = [], videos = []\<rparr>"

text \<open>A provisioning workflow in which every step succeeds, on the primary mailbox
  provider.\<close>

definition working_registration :: reg_env where
  "working_registration =
     \<lparr>create_temp_email_result = Some (''a@tempmail.id.vn'', JInt 7),
      create_testmail_email_result = Some (''t.sg7ph@inbox.testmail.app'', ''t''),
      generate_random_password_result = ''pw'',
      register_account_result = True,
      login_account_result = Some ''token'',
      send_verification_otp_result = True,
      testmail_get = (\<lambda>n. PollTimeout),
      get_email_list_result = Some (JArr [JObj [(''id'', JInt 7)]]),
      get_email_detail_result = Some (JObj [(''items'', JArr [JObj [(''id'', JInt 9)]])]),
      get_email_message_result = Some (JStr ''Your code is 123456''),
      extract_otp_from_html_result = (\<lambda>s. Some ''123456''),
      find_six_digits_result = (\<lambda>s. Some ''123456''),
      verify_email_with_otp_result = True,
      get_api_key_from_account_result = Some ''secret2'',
      commit_succeeds = True\<rparr>"

text \<open>A segment of 240 seconds, and a response of the primary provider whose text decodes
  (by the decoder \<open>loads_to\<close>) to a given value.\<close>

definition good_segment :: json where
  "good_segment =
     JObj [(''start'', JInt 60), (''end'', JInt 300), (''title'', JStr ''X''),
           (''description'', JStr ''Y'')]"

definition short_segment :: json where
  "short_segment =
     JObj [(''start'', JInt 60), (''end'', JInt 100), (''title'', JStr ''S''),
           (''description'', JStr ''T'')]"

definition text_response :: json where
  "text_response = gemini_format (JStr ''segments'')"

definition loads_to :: "json \<Rightarrow> string \<Rightarrow> json option" where
  "loads_to data text0 = Some data"

text \<open>
  An item as the table creates it, and a run in which every collaborator succeeds: a
  transcript of 900 seconds, one segment from 60 to 300, one clip cut and uploaded.
  The variants differ in one collaborator each.
\<close>

definition example_item :: PlaylistVideo where
  "example_item =
     \<lparr>video_id = ''vid1'', video_url = ''https://www.youtube.com/watch?v=vid1'',
      download_status = ''pending'', download_error = None, local_path = None,
      file_size = None, transcript_status = ''pending'', analysis_status = ''pending'',
      conversion_status = ''pending'', shorts_count = 0\<rparr>"

definition transcript_body :: json where
  "transcript_body =
     JObj [(''transcript'',
            JArr [JObj [(''start'', JInt 0), (''duration'', JInt 900), (''text'', JStr ''hello'')]])]"

definition happy_env :: pipeline_env where
  "happy_env =
     \<lparr>transcripts = always_outcome (TResponse 200 transcript_body),
      temp_dir = ''/tmp/x'',
      download_video_result = Some ''/tmp/x/vid1.mp4'',
      getsize_result = Some 1000,
      check_video_availability_result = True,
      analyze_transcript_result = Some [good_segment],
      sanitize_filename_result = (\<lambda>title. title),
      cut_video_clip_result = (\<lambda>path. True),
      upload_file_result = (\<lambda>path. Some (''shorts/vid1/clip.mp4'', ''https://cdn/shorts/vid1/clip.mp4''))\<rparr>"

definition unavailable_env :: pipeline_env where
  "unavailable_env = happy_env\<lparr>check_video_availability_result := False\<rparr>"


definition not_found_env :: pipeline_env where
  "not_found_env = happy_env\<lparr>transcripts := always_outcome (TResponse 404 JNull)\<rparr>"

definition empty_transcript_env :: pipeline_env where
  "empty_transcript_env =
     happy_env\<lparr>transcripts := always_outcome (TResponse 200 (JObj [(''transcript'', JArr [])]))\<rparr>"

section \<open>Properties of the AI credential pool\<close>

lemma get_current_key_total:
  "\<exists>k km'. get_current_key km = Inr (k, km') \<and> keys km' = keys km"
  by (cases "keys km") (auto simp: get_current_key_def py_get_def Let_def)

lemma get_current_key_returns:
  "get_current_key km = Inr (k, km') \<Longrightarrow>
   keys km' = keys km \<and> (k = None \<or> k \<in> key ` set (keys km))"
  by (auto simp: get_current_key_def py_get_def Let_def split: if_splits)

lemma get_current_key_bounds:
  "index_in_bounds km \<Longrightarrow> get_current_key km = Inr (k, km') \<Longrightarrow> index_in_bounds km'"
  by (auto simp: get_current_key_def py_get_def Let_def index_in_bounds_def split: if_splits)

lemma rotate_key_bounds: "index_in_bounds km \<Longrightarrow> index_in_bounds (rotate_key km)"
  by (auto simp: rotate_key_def index_in_bounds_def)

lemma disable_current_key_bounds:
  "index_in_bounds km \<Longrightarrow> index_in_bounds (disable_current_key km reason)"
  by (auto simp: disable_current_key_def index_in_bounds_def Let_def py_pop_def)

lemma km_step_total: "\<exists>r km'. km_step km op = Inr (r, km')"
proof (cases op)
  case GetCurrentKey
  obtain k km' where "get_current_key km = Inr (k, km')"
    using get_current_key_total by blast
  with GetCurrentKey show ?thesis by simp
qed simp_all

lemma km_step_bounds:
  "index_in_bounds km \<Longrightarrow> km_step km op = Inr (r, km') \<Longrightarrow> index_in_bounds km'"
  by (cases op)
     (auto simp: rotate_key_bounds disable_current_key_bounds
           dest: get_current_key_bounds split: sum.splits)

lemma km_run_total: "\<exists>rs km'. km_run km ops = Inr (rs, km')"
proof (induction ops arbitrary: km)
  case Nil
  show ?case by simp
next
  case (Cons op ops)
  obtain r km1 where s: "km_step km op = Inr (r, km1)"
    using km_step_total by blast
  obtain rs km2 where "km_run km1 ops = Inr (rs, km2)"
    using Cons.IH by blast
  with s show ?case by simp
qed

lemma km_run_bounds:
  "index_in_bounds km \<Longrightarrow> km_run km ops = Inr (rs, km') \<Longrightarrow> index_in_bounds km'"
proof (induction ops arbitrary: km rs)
  case Nil
  then show ?case by simp
next
  case (Cons op ops)
  obtain r km1 where s: "km_step km op = Inr (r, km1)"
    using km_step_total by blast
  obtain rs1 km2 where t: "km_run km1 ops = Inr (rs1, km2)"
    using km_run_total by blast
  from Cons.prems(2) s t have "km2 = km'" by simp
  moreover have "index_in_bounds km1"
    using Cons.prems(1) s km_step_bounds by blast
  ultimately show ?case using Cons.IH t by blast
qed

lemma init_bounds:
  "r < length (load_keys ks) \<or> load_keys ks = [] \<Longrightarrow>
   index_in_bounds (GeminiKeyManager_init ks r)"
  by (auto simp: GeminiKeyManager_init_def index_in_bounds_def Let_def)

lemma get_current_key_result:
  "index_in_bounds km \<Longrightarrow>
   get_current_key km =
     Inr (if keys km = [] then None else key (keys km ! current_index km), km)"
  by (auto simp: get_current_key_def py_get_def Let_def index_in_bounds_def)

text \<open>
  Claim C9, as amended. From every pool state whose index is within bounds (the state
  the constructor builds), every sequence of \<open>get_current_key\<close>, \<open>rotate_key\<close> and
  \<open>disable_current_key\<close> runs without an exception and ends with the index within
  bounds; and \<open>get_current_key\<close> then returns None exactly when the working set is empty
  or the selected entry has no \<open>'key'\<close> field.
\<close>

theorem pool_index_safe:
  assumes "index_in_bounds km"
  shows "\<exists>rs km'. km_run km ops = Inr (rs, km') \<and> index_in_bounds km' \<and>
           (\<exists>k. get_current_key km' = Inr (k, km') \<and>
                (k = None \<longleftrightarrow>
                   keys km' = [] \<or> key (keys km' ! current_index km') = None))"
proof -
  obtain rs km' where r: "km_run km ops = Inr (rs, km')"
    using km_run_total by blast
  have b: "index_in_bounds km'"
    using assms r km_run_bounds by blast
  have "get_current_key km' =
          Inr (if keys km' = [] then None else key (keys km' ! current_index km'), km')"
    using b by (rule get_current_key_result)
  then have g: "\<exists>k. get_current_key km' = Inr (k, km') \<and>
                (k = None \<longleftrightarrow>
                   keys km' = [] \<or> key (keys km' ! current_index km') = None)"
    by auto
  show ?thesis
    by (rule exI [of _ rs], rule exI [of _ km']) (use r b g in simp)
qed

theorem pool_index_safe_witness:
  "index_in_bounds (GeminiKeyManager_init [PlainKey ''k1'', PlainKey ''k2''] 1) \<and>
   (\<exists>rs km'. km_run (GeminiKeyManager_init [PlainKey ''k1'', PlainKey ''k2''] 1)
                 [GetCurrentKey, DisableCurrentKey ''HTTP 403'', RotateKey, GetCurrentKey]
               = Inr (rs, km') \<and> index_in_bounds km' \<and>
       (\<exists>k. get_current_key km' = Inr (k, km') \<and>
            (k = None \<longleftrightarrow>
               keys km' = [] \<or> key (keys km' ! current_index km') = None)))"
proof -
  have h: "index_in_bounds (GeminiKeyManager_init [PlainKey ''k1'', PlainKey ''k2''] 1)"
    by (simp add: GeminiKeyManager_init_def index_in_bounds_def)
  show ?thesis
    using h pool_index_safe [OF h,
      of "[GetCurrentKey, DisableCurrentKey ''HTTP 403'', RotateKey, GetCurrentKey]"]
    by simp
qed

text \<open>
  Claim C9 as stated fails: a dictionary entry that is active but has no \<open>'key'\<close> field
  is loaded into the working set, and \<open>get_current_key\<close> returns None on that non-empty
  working set.
\<close>

theorem pool_none_on_nonempty_counterexample:
  "keys (GeminiKeyManager_init [DictKey \<lparr>key = None, status = Some ''active''\<rparr>] 0) \<noteq> [] \<and>
   get_current_key (GeminiKeyManager_init [DictKey \<lparr>key = None, status = Some ''active''\<rparr>] 0)
     = Inr (None, GeminiKeyManager_init [DictKey \<lparr>key = None, status = Some ''active''\<rparr>] 0)"
  by (simp add: GeminiKeyManager_init_def get_current_key_def py_get_def)

section \<open>Properties of the provider fallback chain\<close>

lemma gemini_attempt_not_raised: "gemini_attempt env st \<noteq> Raised e"
proof -
  obtain k km1 where g: "get_current_key (key_manager st) = Inr (k, km1)"
    using get_current_key_total by blast
  show ?thesis
    by (simp add: gemini_attempt_def http_error_handler_def exception_handler_def g Let_def
          split: prod.splits gemini_outcome.splits option.splits)
qed

lemma call_gemini_api_total: "\<exists>r st'. call_gemini_api env st rc = Inr (r, st')"
proof (induction env st rc rule: call_gemini_api.induct)
  case (1 env st rc)
  show ?case
  proof (cases "rc \<ge> MAX_GEMINI_RETRIES")
    case True
    then show ?thesis
      by (subst call_gemini_api.simps) (simp add: prod_eq_iff)
  next
    case False
    show ?thesis
    proof (cases "gemini_attempt env st")
      case (Returned r st')
      with False show ?thesis by (subst call_gemini_api.simps) simp
    next
      case (Reinvoke st')
      with False "1.IH" show ?thesis by (subst call_gemini_api.simps) simp
    next
      case (Raised e)
      then show ?thesis using gemini_attempt_not_raised by blast
    qed
  qed
qed

lemma call_huggingface_api_counts:
  "call_huggingface_api env st = (r, st') \<Longrightarrow>
   recursions st' = recursions st \<and> hf_calls st' = hf_calls st + 1 \<and>
   key_manager st' = key_manager st \<and> gemini_posts st' = gemini_posts st"
  by (auto simp: call_huggingface_api_def Let_def split: if_splits hf_outcome.splits option.splits)

lemma gemini_attempt_recursions:
  "gemini_attempt env st = Returned r st' \<Longrightarrow> recursions st' = recursions st"
  "gemini_attempt env st = Reinvoke st' \<Longrightarrow> recursions st' = recursions st"
  by (auto simp: gemini_attempt_def http_error_handler_def exception_handler_def Let_def
           split: sum.splits prod.splits if_splits gemini_outcome.splits option.splits
           dest: call_huggingface_api_counts)

lemma call_gemini_api_recursions:
  "call_gemini_api env st rc = Inr (r, st') \<Longrightarrow>
   recursions st' \<le> recursions st + (MAX_GEMINI_RETRIES - rc)"
proof (induction env st rc arbitrary: r st' rule: call_gemini_api.induct)
  case (1 env st rc)
  show ?case
  proof (cases "rc \<ge> MAX_GEMINI_RETRIES")
    case True
    with "1.prems" show ?thesis
      by (subst (asm) call_gemini_api.simps) (auto dest: call_huggingface_api_counts)
  next
    case False
    show ?thesis
    proof (cases "gemini_attempt env st")
      case (Returned r1 st1)
      with False "1.prems" have "st' = st1"
        by (subst (asm) call_gemini_api.simps) simp
      with Returned show ?thesis by (simp add: gemini_attempt_recursions)
    next
      case (Reinvoke st1)
      with False "1.prems"
      have c: "call_gemini_api env (st1\<lparr>recursions := recursions st1 + 1\<rparr>) (rc + 1) = Inr (r, st')"
        by (subst (asm) call_gemini_api.simps) simp
      have "recursions st' \<le> recursions (st1\<lparr>recursions := recursions st1 + 1\<rparr>) + (MAX_GEMINI_RETRIES - (rc + 1))"
        using "1.IH" [OF False Reinvoke c] .
      with Reinvoke False show ?thesis by (simp add: gemini_attempt_recursions)
    next
      case (Raised e)
      then show ?thesis using gemini_attempt_not_raised by blast
    qed
  qed
qed

lemma gemini_attempt_hf_calls:
  "gemini_attempt env st = Returned r st' \<Longrightarrow> hf_calls st' \<le> hf_calls st + 1"
  "gemini_attempt env st = Reinvoke st' \<Longrightarrow> hf_calls st' = hf_calls st"
  by (auto simp: gemini_attempt_def http_error_handler_def exception_handler_def Let_def
           split: sum.splits prod.splits if_splits gemini_outcome.splits option.splits
           dest: call_huggingface_api_counts)

text \<open>
  The status of an HTTP error is never read: the response of an \<open>HTTPError\<close> raised by
  \<open>raise_for_status\<close> is false, so \<open>status_code\<close> is None and the handler returns None.
\<close>

lemma http_error_handler_returns:
  "raise_for_status c \<Longrightarrow> http_error_handler env st1 c = Returned None st1"
  by (simp add: http_error_handler_def response_bool_def)

lemma http_error_returns_none:
  assumes "retry_count < MAX_GEMINI_RETRIES"
    and "get_current_key (key_manager st) = Inr (Some api_key, km1)"
    and "api_key \<noteq> []"
    and "gemini_post env (gemini_posts st) = GeminiResponse c body"
    and "raise_for_status c"
  shows "call_gemini_api env st retry_count =
           Inr (None, st\<lparr>key_manager := km1, gemini_posts := gemini_posts st + 1\<rparr>)"
  using assms
  by (subst call_gemini_api.simps)
     (simp add: gemini_attempt_def http_error_handler_returns Let_def)

text \<open>No call removes an entry from the pool.\<close>

lemma gemini_attempt_keys:
  "case gemini_attempt env st of
     Returned r st' \<Rightarrow> keys (key_manager st') = keys (key_manager st)
   | Reinvoke st' \<Rightarrow> keys (key_manager st') = keys (key_manager st)
   | Raised e \<Rightarrow> True"
proof -
  obtain k km1 where g: "get_current_key (key_manager st) = Inr (k, km1)"
    using get_current_key_total by blast
  have k1: "keys km1 = keys (key_manager st)"
    using get_current_key_returns [OF g] by simp
  have hf: "\<And>s r s'. call_huggingface_api env s = (r, s') \<Longrightarrow> key_manager s' = key_manager s"
    using call_huggingface_api_counts by blast
  show ?thesis
    using k1
    by (auto simp: gemini_attempt_def g http_error_handler_def exception_handler_def
                   response_bool_def rotate_key_def Let_def
             split: prod.splits gemini_outcome.splits option.splits
             dest!: hf)
qed

lemma gemini_attempt_keeps_keys:
  "gemini_attempt env st = Returned r st' \<Longrightarrow> keys (key_manager st') = keys (key_manager st)"
  "gemini_attempt env st = Reinvoke st' \<Longrightarrow> keys (key_manager st') = keys (key_manager st)"
  using gemini_attempt_keys [where env = env and st = st] by simp_all

lemma call_gemini_api_keeps_keys:
  "call_gemini_api env st rc = Inr (r, st') \<Longrightarrow> keys (key_manager st') = keys (key_manager st)"
proof (induction env st rc arbitrary: r st' rule: call_gemini_api.induct)
  case (1 env st rc)
  show ?case
  proof (cases "rc \<ge> MAX_GEMINI_RETRIES")
    case True
    with "1.prems" show ?thesis
      by (subst (asm) call_gemini_api.simps) (auto dest: call_huggingface_api_counts)
  next
    case False
    show ?thesis
    proof (cases "gemini_attempt env st")
      case (Returned r1 st1)
      with False "1.prems" have "st' = st1"
        by (subst (asm) call_gemini_api.simps) simp
      with Returned show ?thesis by (simp add: gemini_attempt_keeps_keys)
    next
      case (Reinvoke st1)
      with False "1.prems"
      have c: "call_gemini_api env (st1\<lparr>recursions := recursions st1 + 1\<rparr>) (rc + 1) = Inr (r, st')"
        by (subst (asm) call_gemini_api.simps) simp
      have "keys (key_manager st') = keys (key_manager (st1\<lparr>recursions := recursions st1 + 1\<rparr>))"
        using "1.IH" [OF False Reinvoke c] .
      with Reinvoke show ?thesis by (simp add: gemini_attempt_keeps_keys)
    next
      case (Raised e)
      then show ?thesis using gemini_attempt_not_raised by blast
    qed
  qed
qed

text \<open>On a pool that is empty when the call starts, the secondary provider is invoked,
  once, and its result returned.\<close>

lemma empty_pool_invokes_secondary:
  assumes "keys (key_manager st) = []"
  shows "call_gemini_api env st rc = Inr (call_huggingface_api env st)"
proof (cases "rc \<ge> MAX_GEMINI_RETRIES")
  case True
  then show ?thesis by (subst call_gemini_api.simps) simp
next
  case False
  have "get_current_key (key_manager st) = Inr (None, key_manager st)"
    using assms by (simp add: get_current_key_def)
  then have "gemini_attempt env st =
               (case call_huggingface_api env st of (hf_response, st') \<Rightarrow> Returned hf_response st')"
    by (simp add: gemini_attempt_def)
  with False show ?thesis
    by (subst call_gemini_api.simps) (simp split: prod.splits)
qed

text \<open>
  Claim C3 says that when every credential of the pool has failed with a
  credential-fatal error, \<open>call_gemini_api\<close> invokes \<open>call_huggingface_api\<close> exactly once
  before it returns. The code does not. With a pool of one key, a primary provider that
  answers 403 and a secondary provider that would answer: \<open>raise_for_status\<close> raises, the
  handler binds \<open>status_code\<close> to None because the response of the error is false, the
  branch for 400, 403, 429 and 503 is passed over, and the call returns None after one
  POST. The key is still in the pool and the secondary provider has not been invoked
  (\<open>hf_calls\<close> stays 0).
\<close>

theorem fatal_error_skips_secondary:
  "call_gemini_api
     \<lparr>gemini_post = (\<lambda>n. GeminiResponse 403 (Some (JObj [(''error'', JStr ''forbidden'')]))),
      huggingface_post =
        (\<lambda>n. HfResponse (JObj [(''choices'',
                JArr [JObj [(''message'', JObj [(''content'', JStr ''segments'')])]])])),
      HUGGINGFACE_TOKEN = ''token''\<rparr>
     \<lparr>key_manager = GeminiKeyManager_init [PlainKey ''k1''] 0,
      gemini_posts = 0, hf_calls = 0, recursions = 0\<rparr> 0
   = Inr (None,
          \<lparr>key_manager =
             \<lparr>keys = [\<lparr>key = Some ''k1'', status = Some ''active''\<rparr>], current_index = 0\<rparr>,
           gemini_posts = 1, hf_calls = 0, recursions = 0\<rparr>)"
  by (simp add: call_gemini_api.simps gemini_attempt_def http_error_handler_def
        raise_for_status_def response_bool_def GeminiKeyManager_init_def
        get_current_key_def py_get_def MAX_GEMINI_RETRIES_def)

section \<open>Properties of the account provisioning workflow\<close>

text \<open>
  The store is written only together with a returned credential: whenever the workflow
  returns None or raises, the store is what it was; when it returns a credential, that
  credential is the one new row, active and with a fresh primary key.
\<close>

lemma auto_register_no_partial_commit:
  "auto_register_and_save_key env db = (r, db') \<Longrightarrow>
   (case r of
      Inr (Some k) \<Rightarrow> api_keys db' = api_keys db @ [k] \<and> ak_status k = ''active''
                      \<and> ak_id k = next_id (api_keys db)
                      \<and> no_transcript_videos db' = no_transcript_videos db \<and> videos db' = videos db
    | _ \<Rightarrow> db' = db)"
  unfolding auto_register_and_save_key_def Let_def
  by (auto split: option.splits prod.splits if_splits sum.splits)

text \<open>
  Claim C8 says that a failing step makes the workflow return None without raising and
  without a partial commit. The commit part holds (lemma above). The no-raise part does
  not: the loop over the mailbox list calls \<open>e.get('id')\<close> outside any \<open>try\<close>, so a list
  payload whose entries are not objects makes the workflow raise AttributeError. Here the
  mailbox, the registration, the login and the OTP request succeed, and the mailbox list
  is \<open>["x"]\<close>.
\<close>

theorem provisioning_raises_on_malformed_mailbox_list:
  "auto_register_and_save_key
     \<lparr>create_temp_email_result = Some (''a@tempmail.id.vn'', JInt 7),
      create_testmail_email_result = Some (''t.sg7ph@inbox.testmail.app'', ''t''),
      generate_random_password_result = ''pw'',
      register_account_result = True,
      login_account_result = Some ''token'',
      send_verification_otp_result = True,
      testmail_get = (\<lambda>n. PollTimeout),
      get_email_list_result = Some (JArr [JStr ''x'']),
      get_email_detail_result = None,
      get_email_message_result = None,
      extract_otp_from_html_result = (\<lambda>s. None),
      find_six_digits_result = (\<lambda>s. None),
      verify_email_with_otp_result = True,
      get_api_key_from_account_result = Some ''key'',
      commit_succeeds = True\<rparr> db
   = (Inl AttributeError, db)"
  by (simp add: auto_register_and_save_key_def otp_via_tempmail_def)

section \<open>Every retry path has a numeric budget\<close>

lemma fetch_attempt_iterations:
  "fetch_attempt env m a st = FReturn r st' \<Longrightarrow> iterations st' = iterations st"
  "fetch_attempt env m a st = FContinue st' \<Longrightarrow> iterations st' = iterations st"
  "fetch_attempt env m a st = FRaise e st' \<Longrightarrow> iterations st' = iterations st"
  by (auto simp: fetch_attempt_def fetch_request_def fetch_response_def Let_def
           split: option.splits transcript_outcome.splits if_splits parse_result.splits
                  prod.splits sum.splits)

lemma fetch_loop_iterations:
  "fetch_loop env m a st = (r, st') \<Longrightarrow> iterations st' \<le> iterations st + nat (m - a)"
proof (induction env m a st arbitrary: r st' rule: fetch_loop.induct)
  case (1 env m a st)
  show ?case
  proof (cases "a \<ge> m")
    case True
    with "1.prems" show ?thesis by (subst (asm) fetch_loop.simps) simp
  next
    case False
    let ?st0 = "st\<lparr>iterations := iterations st + 1\<rparr>"
    show ?thesis
    proof (cases "fetch_attempt env m a ?st0")
      case (FReturn t st1)
      with False "1.prems" have "st' = st1" by (subst (asm) fetch_loop.simps) simp
      with FReturn False show ?thesis using fetch_attempt_iterations(1) [of env m a ?st0 t st1] by simp
    next
      case (FRaise e st1)
      with False "1.prems" have "st' = st1" by (subst (asm) fetch_loop.simps) simp
      with FRaise False show ?thesis using fetch_attempt_iterations(3) [of env m a ?st0 e st1] by simp
    next
      case (FContinue st1)
      with False "1.prems" have c: "fetch_loop env m (a + 1) st1 = (r, st')"
        by (subst (asm) fetch_loop.simps) simp
      have "iterations st' \<le> iterations st1 + nat (m - (a + 1))"
        using "1.IH" [OF False FContinue c] .
      moreover have "iterations st1 = iterations st + 1"
        using fetch_attempt_iterations(2) [OF FContinue] by simp
      ultimately show ?thesis using False by simp
    qed
  qed
qed

lemma wait_loop_polls:
  "wait_loop env s a m p = (r, p') \<Longrightarrow> p' \<le> p + nat (m + 1 - a) \<and> r \<noteq> Inl ZeroDivisionError"
proof (induction env s a m p arbitrary: r p' rule: wait_loop.induct)
  case (1 env s a m p)
  show ?case
  proof (cases "a > m")
    case True
    with "1.prems" show ?thesis by (subst (asm) wait_loop.simps) auto
  next
    case False
    show ?thesis
    proof (cases "a < m \<and> time_sleep s \<noteq> None")
      case True
      with False "1.prems" show ?thesis
        by (subst (asm) wait_loop.simps)
           (auto simp: time_sleep_def split: poll_step.splits if_splits)
    next
      case sleeps: False
      show ?thesis
      proof (cases "poll_once env p")
        case (Found x)
        with False "1.prems" show ?thesis by (subst (asm) wait_loop.simps) auto
      next
        case ApiError
        with False "1.prems" show ?thesis by (subst (asm) wait_loop.simps) auto
      next
        case NoEmailYet
        with False sleeps "1.prems" have c: "wait_loop env s (a + 1) m (p + 1) = (r, p')"
          by (subst (asm) wait_loop.simps) (auto split: if_splits)
        show ?thesis
        proof (cases "a < m")
          case True
          with sleeps have n: "time_sleep s = None" by simp
          from "1.IH"(1) [OF False NoEmailYet True n c] False show ?thesis by (elim conjE, intro conjI) arith+
        next
          case last: False
          from "1.IH"(2) [OF False NoEmailYet last c] False show ?thesis by (elim conjE, intro conjI) arith+
        qed
      next
        case PollFailed
        show ?thesis
        proof (cases "a < m")
          case True
          with sleeps have n: "time_sleep s = None" by simp
          with PollFailed True False "1.prems"
          have c: "wait_loop env s (a + 1) m (p + 1) = (r, p')"
            by (subst (asm) wait_loop.simps) simp
          from "1.IH"(3) [OF False PollFailed True n c] False show ?thesis by (elim conjE, intro conjI) arith+
        next
          case last: False
          with PollFailed False "1.prems" show ?thesis by (subst (asm) wait_loop.simps) auto
        qed
      qed
    qed
  qed
qed

text \<open>
  Claim C10. \<open>MAX_GEMINI_RETRIES\<close> is 10; \<open>call_gemini_api\<close> always returns, after at most
  \<open>MAX_GEMINI_RETRIES - retry_count\<close> self-invocations (10 for a call that starts at 0);
  \<open>fetch_transcript_with_retry\<close> starts at most \<open>max_attempts\<close> iterations; and
  \<open>wait_for_testmail_message\<close> sends at most \<open>max_wait // poll_interval\<close> GETs, whether it
  returns or raises (it raises ZeroDivisionError exactly for a poll interval of 0, before
  any poll). All three functions are total: their termination is proved with their
  definitions.
\<close>

theorem retry_paths_bounded:
  "MAX_GEMINI_RETRIES = 10 \<and>
   (\<exists>r st'. call_gemini_api env st retry_count = Inr (r, st') \<and>
       recursions st' \<le> recursions st + (MAX_GEMINI_RETRIES - retry_count)) \<and>
   iterations (snd (fetch_transcript_with_retry tenv db_session max_attempts))
     \<le> nat max_attempts \<and>
   (case wait_for_testmail_message renv max_wait poll_interval of
      (result, polls) \<Rightarrow>
        polls \<le> nat (max_wait div poll_interval) \<and>
        (result = Inl ZeroDivisionError \<longleftrightarrow> poll_interval = 0))"
proof -
  obtain r st' where c: "call_gemini_api env st retry_count = Inr (r, st')"
    using call_gemini_api_total by blast
  have a: "\<exists>r st'. call_gemini_api env st retry_count = Inr (r, st') \<and>
       recursions st' \<le> recursions st + (MAX_GEMINI_RETRIES - retry_count)"
    using c call_gemini_api_recursions [OF c] by blast
  obtain r2 st2 where f: "fetch_loop tenv max_attempts 0 \<lparr>session = db_session, iterations = 0, requests = []\<rparr> = (r2, st2)"
    by (cases "fetch_loop tenv max_attempts 0 \<lparr>session = db_session, iterations = 0, requests = []\<rparr>")
  have b: "iterations (snd (fetch_transcript_with_retry tenv db_session max_attempts))
             \<le> nat max_attempts"
    using fetch_loop_iterations [OF f] f by (simp add: fetch_transcript_with_retry_def)
  have w: "case wait_for_testmail_message renv max_wait poll_interval of
      (result, polls) \<Rightarrow>
        polls \<le> nat (max_wait div poll_interval) \<and>
        (result = Inl ZeroDivisionError \<longleftrightarrow> poll_interval = 0)"
  proof (cases "poll_interval = 0")
    case True
    then show ?thesis by (simp add: wait_for_testmail_message_def)
  next
    case False
    obtain r3 p3 where l: "wait_loop renv poll_interval 1 (max_wait div poll_interval) 0 = (r3, p3)"
      by (cases "wait_loop renv poll_interval 1 (max_wait div poll_interval) 0")
    from wait_loop_polls [OF l] False l show ?thesis
      by (simp add: wait_for_testmail_message_def)
  qed
  show ?thesis using a b w by (simp add: MAX_GEMINI_RETRIES_def)
qed

section \<open>How the two paths treat the status of a response\<close>

lemma get_current_key_Some:
  "get_current_key km = Inr (Some k, km1) \<Longrightarrow>
   keys km1 = keys km \<and> keys km1 \<noteq> [] \<and> current_index km1 < length (keys km1)"
  by (auto simp: get_current_key_def py_get_def Let_def split: if_splits)

lemma py_pop_update: "i < length xs \<Longrightarrow> py_pop (xs[i := y]) i = py_pop xs i"
  by (simp add: py_pop_def)

lemma disable_current_key_keys:
  "current_index km < length (keys km) \<Longrightarrow>
   keys (disable_current_key km reason) = py_pop (keys km) (current_index km)"
  by (auto simp: disable_current_key_def Let_def py_pop_update)

lemma rotate_key_keys: "keys (rotate_key km) = keys km"
  by (simp add: rotate_key_def)

text \<open>
  The transcript path reads the status of the response itself. For 401, 402, 403 and 429
  the credential is disabled in the store and the loop goes on to the next attempt if one
  is left (there is no rotation pointer: the next attempt asks the store again); for
  503, as for every other status from 400 on except 404, the function returns None at
  once, with the store unchanged and without another attempt.
\<close>

lemma transcript_error_classes:
  assumes "transcript_get tenv (nat attempt) = TResponse c data"
  shows "c \<in> {401, 402, 403, 429} \<Longrightarrow>
           fetch_response tenv max_attempts attempt key_obj fs =
             (if attempt < max_attempts - 1
              then FContinue (fs\<lparr>session := disable_key (session fs) (ak_id key_obj) (error_msg c)\<rparr>)
              else FReturn None (fs\<lparr>session := disable_key (session fs) (ak_id key_obj) (error_msg c)\<rparr>))"
    and "c = 503 \<Longrightarrow> fetch_response tenv max_attempts attempt key_obj fs = FReturn None fs"
  using assms by (auto simp: fetch_response_def Let_def)

lemma transcript_503_not_retried:
  "fetch_transcript_with_retry (always_outcome (TResponse 503 JNull)) one_key_store 3
     = (Inr None, \<lparr>session = one_key_store, iterations = 1,
                   requests = [TResponse 503 JNull]\<rparr>)"
  by (simp add: fetch_transcript_with_retry_def fetch_loop.simps fetch_attempt_def
        fetch_request_def fetch_response_def get_active_key_def one_key_store_def key1_def
        always_outcome_def)

text \<open>
  Claim C4 says that in both paths a 503 response rotates the credential and retries,
  and a 401, 402, 403 or 429 response disables the credential, rotates and continues. In
  \<open>call_gemini_api\<close> the code does neither. Its handler has a branch for the status codes
  400, 403, 429 and 503 that rotates, disables and retries, but it binds the status by
  \<open>e.response.status_code if e.response else None\<close>, and the response of an
  \<open>HTTPError\<close> is false: the status is None for every HTTP error and the call returns
  None. With the two keys \<open>k1\<close> and \<open>k2\<close>, on 503 as on 429 the call returns after one
  POST, without a retry, with the index still on \<open>k1\<close> and both keys in the pool.
\<close>

theorem http_error_status_not_dispatched:
  "keys two_keys = [\<lparr>key = Some ''k1'', status = Some ''active''\<rparr>,
                   \<lparr>key = Some ''k2'', status = Some ''active''\<rparr>] \<and>
   current_index two_keys = 0 \<and>
   call_gemini_api (always_status 503) (ai_start two_keys) 0 =
     Inr (None, \<lparr>key_manager = two_keys, gemini_posts = 1, hf_calls = 0, recursions = 0\<rparr>) \<and>
   call_gemini_api (always_status 429) (ai_start two_keys) 0 =
     Inr (None, \<lparr>key_manager = two_keys, gemini_posts = 1, hf_calls = 0, recursions = 0\<rparr>)"
  by (simp add: call_gemini_api.simps gemini_attempt_def http_error_handler_def
        raise_for_status_def response_bool_def MAX_GEMINI_RETRIES_def
        always_status_def ai_start_def two_keys_def GeminiKeyManager_init_def
        get_current_key_def py_get_def)

section \<open>A disabled credential is not acquired again\<close>

subsection \<open>The AI pool\<close>

lemma set_py_pop: "set (py_pop xs i) \<subseteq> set xs"
  by (auto simp: py_pop_def dest: in_set_takeD in_set_dropD)

lemma disable_current_key_subset:
  "set (keys (disable_current_key km reason)) \<subseteq> set (keys km)"
proof (cases "keys km \<noteq> [] \<and> current_index km < length (keys km)")
  case True
  then have "keys (disable_current_key km reason) = py_pop (keys km) (current_index km)"
    by (simp add: disable_current_key_keys)
  then show ?thesis using set_py_pop by metis
next
  case False
  then show ?thesis by (auto simp: disable_current_key_def)
qed

lemma km_step_returns:
  "km_step km op = Inr (r, km') \<Longrightarrow>
   set (keys km') \<subseteq> set (keys km) \<and>
   (\<forall>k. r = Some k \<longrightarrow> k = None \<or> k \<in> key ` set (keys km))"
proof (cases op)
  case GetCurrentKey
  assume a: "km_step km op = Inr (r, km')"
  obtain k where g: "get_current_key km = Inr (k, km')" "r = Some k"
    using a GetCurrentKey by (auto split: sum.splits)
  from get_current_key_returns [OF g(1)] g(2) show ?thesis by auto
next
  case RotateKey
  assume "km_step km op = Inr (r, km')"
  with RotateKey show ?thesis by (auto simp: rotate_key_keys)
next
  case (DisableCurrentKey reason)
  assume "km_step km op = Inr (r, km')"
  with DisableCurrentKey show ?thesis using disable_current_key_subset by auto
qed

lemma km_run_returns:
  "km_run km ops = Inr (rs, km') \<Longrightarrow> set rs \<subseteq> insert None (key ` set (keys km))"
proof (induction ops arbitrary: km rs km')
  case Nil
  then show ?case by simp
next
  case (Cons op ops)
  obtain r km1 where s: "km_step km op = Inr (r, km1)"
    using km_step_total by blast
  obtain rs1 km2 where t: "km_run km1 ops = Inr (rs1, km2)"
    using km_run_total by blast
  from Cons.prems s t have rs: "rs = (case r of None \<Rightarrow> rs1 | Some k \<Rightarrow> k # rs1)"
    by simp
  have sub: "set (keys km1) \<subseteq> set (keys km)"
    and ret: "\<forall>k. r = Some k \<longrightarrow> k = None \<or> k \<in> key ` set (keys km)"
    using km_step_returns [OF s] by auto
  have "set rs1 \<subseteq> insert None (key ` set (keys km1))"
    using Cons.IH [OF t] .
  then have "set rs1 \<subseteq> insert None (key ` set (keys km))"
    using sub by auto
  with rs ret show ?case by (cases r) auto
qed

lemma popped_key_gone:
  assumes "distinct (map key xs)" and "i < length xs"
  shows "key (xs ! i) \<notin> key ` set (py_pop xs i)"
proof -
  have "xs = take i xs @ xs ! i # drop (Suc i) xs"
    using assms(2) by (rule id_take_nth_drop)
  then have "map key xs = map key (take i xs) @ key (xs ! i) # map key (drop (Suc i) xs)"
    by (metis list.simps(9) map_append)
  with assms(1) have "distinct (map key (take i xs) @ key (xs ! i) # map key (drop (Suc i) xs))"
    by simp
  then show ?thesis by (auto simp: py_pop_def)
qed

subsection \<open>The store\<close>

lemma fold_max_ge: "(a::nat) \<le> fold max xs a"
  by (induction xs arbitrary: a) (auto intro: order_trans [OF max.cobounded2])

lemma fold_max_mem: "(x::nat) \<in> set xs \<Longrightarrow> x \<le> fold max xs a"
proof (induction xs arbitrary: a)
  case Nil
  then show ?case by simp
next
  case (Cons y ys)
  show ?case
  proof (cases "x = y")
    case True
    have "max y a \<le> fold max ys (max y a)" by (rule fold_max_ge)
    with True show ?thesis by simp
  next
    case False
    with Cons show ?thesis by simp
  qed
qed

lemma next_id_fresh: "k \<in> set rows \<Longrightarrow> ak_id k < next_id rows"
  using fold_max_mem [of "ak_id k" "map ak_id rows" 0] by (simp add: next_id_def)

lemma update_row_ids: "map ak_id (update_row i f rows) = map ak_id rows"
  if "\<And>k. ak_id (f k) = ak_id k"
  using that by (induction rows) auto

lemma update_row_set:
  "k \<in> set (update_row i f rows) \<Longrightarrow> k \<in> set rows \<or> (\<exists>k0 \<in> set rows. ak_id k0 = i \<and> k = f k0)"
  by (induction rows) (auto split: if_splits)

lemma update_row_distinct_hit:
  "distinct (map ak_id rows) \<Longrightarrow> k \<in> set (update_row i f rows) \<Longrightarrow> ak_id k = i \<Longrightarrow>
   (\<And>k. ak_id (f k) = ak_id k) \<Longrightarrow> \<exists>k0 \<in> set rows. k = f k0"
proof (induction rows)
  case Nil
  then show ?case by simp
next
  case (Cons r rows)
  show ?case
  proof (cases "ak_id r = i")
    case True
    with Cons.prems have "k = f r \<or> k \<in> set rows" by auto
    moreover have "k \<notin> set rows"
      using Cons.prems(1,3) True by (auto simp: image_iff)
    ultimately show ?thesis by auto
  next
    case False
    with Cons.prems have "k \<in> set (update_row i f rows)" by auto
    with Cons show ?thesis by auto
  qed
qed

lemma update_row_keeps_member:
  "(\<exists>k \<in> set rows. ak_id k = i) \<Longrightarrow> (\<And>k. ak_id (f k) = ak_id k) \<Longrightarrow>
   \<exists>k \<in> set (update_row j f rows). ak_id k = i"
proof -
  assume a: "\<exists>k \<in> set rows. ak_id k = i" and f: "\<And>k. ak_id (f k) = ak_id k"
  have "map ak_id (update_row j f rows) = map ak_id rows"
    using f by (rule update_row_ids)
  then have "ak_id ` set (update_row j f rows) = ak_id ` set rows"
    by (metis set_map)
  with a show ?thesis by (auto simp: image_iff) (metis imageE image_eqI)
qed

lemma first_lru_mem: "first_lru xs = Some k \<Longrightarrow> k \<in> set xs"
  by (induction xs arbitrary: k) (auto split: option.splits if_splits)

lemma get_active_key_active:
  "get_active_key db = Some k \<Longrightarrow> k \<in> set (api_keys db) \<and> ak_status k = ''active''"
  by (auto simp: get_active_key_def dest: first_lru_mem)

lemma disable_key_retires:
  assumes "distinct (map ak_id (api_keys db))" and "row \<in> set (api_keys db)"
  shows "retired (ak_id row) (api_keys (disable_key db (ak_id row) reason))"
proof -
  let ?f = "\<lambda>k. k\<lparr>ak_status := ''disabled'', ak_disabled_reason := Some reason\<rparr>"
  have id: "\<And>k. ak_id (?f k) = ak_id k" by simp
  have m: "\<exists>k \<in> set (update_row (ak_id row) ?f (api_keys db)). ak_id k = ak_id row"
    using assms(2) by (intro update_row_keeps_member) auto
  have d: "\<forall>k \<in> set (update_row (ak_id row) ?f (api_keys db)).
             ak_id k = ak_id row \<longrightarrow> ak_status k \<noteq> ''active''"
  proof (intro ballI impI)
    fix k
    assume k: "k \<in> set (update_row (ak_id row) ?f (api_keys db))" and i: "ak_id k = ak_id row"
    obtain k0 where "k = ?f k0"
      using update_row_distinct_hit [OF assms(1) k i] by auto
    then show "ak_status k \<noteq> ''active''" by simp
  qed
  show ?thesis using m d by (simp add: retired_def disable_key_def)
qed

lemma retired_update_row:
  assumes "retired i rows" and "\<And>k. ak_id (f k) = ak_id k"
    and "\<And>k. ak_status (f k) = ak_status k \<or> ak_status (f k) \<noteq> ''active''"
  shows "retired i (update_row j f rows)"
proof -
  have m: "\<exists>k \<in> set (update_row j f rows). ak_id k = i"
    using assms(1,2) by (intro update_row_keeps_member) (auto simp: retired_def)
  have d: "\<forall>k \<in> set (update_row j f rows). ak_id k = i \<longrightarrow> ak_status k \<noteq> ''active''"
  proof (intro ballI impI)
    fix k
    assume k: "k \<in> set (update_row j f rows)" and i: "ak_id k = i"
    from update_row_set [OF k] show "ak_status k \<noteq> ''active''"
    proof
      assume "k \<in> set rows"
      with i assms(1) show ?thesis by (auto simp: retired_def)
    next
      assume "\<exists>k0 \<in> set rows. ak_id k0 = j \<and> k = f k0"
      then obtain k0 where k0: "k0 \<in> set rows" "k = f k0" by auto
      with i assms(2) have "ak_id k0 = i" by simp
      with k0(1) assms(1) have "ak_status k0 \<noteq> ''active''" by (auto simp: retired_def)
      with assms(3) [of k0] k0(2) show ?thesis by auto
    qed
  qed
  show ?thesis using m d by (simp add: retired_def)
qed

lemma retired_provision:
  assumes "retired i (api_keys db)"
  shows "retired i (api_keys (snd (auto_register_and_save_key env db)))"
proof -
  obtain r db' where a: "auto_register_and_save_key env db = (r, db')"
    by (cases "auto_register_and_save_key env db")
  note c = auto_register_no_partial_commit [OF a]
  show ?thesis
  proof (cases r)
    case (Inl e)
    with c a assms show ?thesis by simp
  next
    case (Inr ko)
    show ?thesis
    proof (cases ko)
      case None
      with Inr c a assms show ?thesis by simp
    next
      case (Some k)
      with Inr c have rows: "api_keys db' = api_keys db @ [k]"
        and fresh: "ak_id k = next_id (api_keys db)" by auto
      obtain k0 where k0: "k0 \<in> set (api_keys db)" "ak_id k0 = i"
        using assms by (auto simp: retired_def)
      have "ak_id k \<noteq> i"
        using next_id_fresh [OF k0(1)] fresh k0(2) by simp
      with rows assms a show ?thesis by (auto simp: retired_def)
    qed
  qed
qed

lemma store_step_retired:
  assumes "retired i (api_keys db)" and "store_step db op = (r, db')"
  shows "retired i (api_keys db') \<and> (\<forall>k. r = Some k \<longrightarrow> ak_id k \<noteq> i)"
proof (cases op)
  case GetActiveKey
  with assms(2) have e: "db' = db" "r = get_active_key db" by auto
  have "\<forall>k. r = Some k \<longrightarrow> ak_id k \<noteq> i"
    using e(2) assms(1) get_active_key_active by (fastforce simp: retired_def)
  with e assms(1) show ?thesis by simp
next
  case (MarkKeyUsed j now)
  with assms(2) have e: "db' = mark_key_used db j now" "r = None" by auto
  have "retired i (api_keys (mark_key_used db j now))"
    unfolding mark_key_used_def using assms(1) by (simp add: retired_update_row)
  with e show ?thesis by simp
next
  case (DisableKey j reason)
  with assms(2) have e: "db' = disable_key db j reason" "r = None" by auto
  have "retired i (api_keys (disable_key db j reason))"
    unfolding disable_key_def using assms(1) by (simp add: retired_update_row)
  with e show ?thesis by simp
next
  case (Provision env)
  with assms(2) have e: "db' = snd (auto_register_and_save_key env db)" "r = None" by auto
  with retired_provision [OF assms(1)] show ?thesis by simp
qed

lemma store_run_retired:
  "retired i (api_keys db) \<Longrightarrow> \<forall>k \<in> set (fst (store_run db ops)). ak_id k \<noteq> i"
proof (induction ops arbitrary: db)
  case Nil
  show ?case by simp
next
  case (Cons op ops)
  obtain r db1 where s: "store_step db op = (r, db1)" by (cases "store_step db op")
  obtain rs db2 where t: "store_run db1 ops = (rs, db2)" by (cases "store_run db1 ops")
  note st = store_step_retired [OF Cons.prems s]
  have "\<forall>k \<in> set (fst (store_run db1 ops)). ak_id k \<noteq> i"
    using Cons.IH st by blast
  with t have rs: "\<forall>k \<in> set rs. ak_id k \<noteq> i" by simp
  show ?case using s t st rs by (cases r) auto
qed

text \<open>
  Claim C5, as amended. AI pool: when the entries of the pool carry pairwise different
  keys and the current entry carries the key \<open>secret\<close>, then after
  \<open>disable_current_key\<close> no \<open>get_current_key\<close> of any later sequence of pool operations
  returns \<open>secret\<close> (the pool has no operation that adds an entry). Transcript pool: when
  the rows of \<open>api_keys\<close> have pairwise different primary keys (as a primary key has) and
  \<open>row\<close> is one of them, then after \<open>disable_key\<close> on its id no \<open>get_active_key\<close> of any
  later sequence of acquisitions, uses, disablings and provisioning runs returns a row
  with that id.
\<close>

theorem disabled_credential_never_returned:
  assumes "distinct (map key (keys km))"
    and "current_index km < length (keys km)"
    and "key (keys km ! current_index km) = Some secret"
    and "distinct (map ak_id (api_keys db))"
    and "row \<in> set (api_keys db)"
  shows "(case km_run (disable_current_key km reason) ops of
            Inl e \<Rightarrow> False
          | Inr (returned, km') \<Rightarrow> Some secret \<notin> set returned) \<and>
         (\<forall>k \<in> set (fst (store_run (disable_key db (ak_id row) reason') store_ops)).
            ak_id k \<noteq> ak_id row)"
proof -
  obtain rs km' where r: "km_run (disable_current_key km reason) ops = Inr (rs, km')"
    using km_run_total by blast
  have "keys (disable_current_key km reason) = py_pop (keys km) (current_index km)"
    using assms(2) by (rule disable_current_key_keys)
  moreover have "key (keys km ! current_index km) \<notin> key ` set (py_pop (keys km) (current_index km))"
    using assms(1,2) by (rule popped_key_gone)
  ultimately have "Some secret \<notin> key ` set (keys (disable_current_key km reason))"
    using assms(3) by simp
  moreover have "set rs \<subseteq> insert None (key ` set (keys (disable_current_key km reason)))"
    using r by (rule km_run_returns)
  ultimately have a: "Some secret \<notin> set rs" by auto
  have "retired (ak_id row) (api_keys (disable_key db (ak_id row) reason'))"
    using assms(4,5) by (rule disable_key_retires)
  then have b: "\<forall>k \<in> set (fst (store_run (disable_key db (ak_id row) reason') store_ops)).
            ak_id k \<noteq> ak_id row"
    by (rule store_run_retired)
  show ?thesis using r a b by simp
qed

theorem disabled_credential_never_returned_witness:
  "distinct (map key (keys two_keys)) \<and>
   current_index two_keys < length (keys two_keys) \<and>
   key (keys two_keys ! current_index two_keys) = Some ''k1'' \<and>
   distinct (map ak_id (api_keys one_key_store)) \<and>
   key1 \<in> set (api_keys one_key_store) \<and>
   (case km_run (disable_current_key two_keys ''HTTP error'')
           [GetCurrentKey, RotateKey, GetCurrentKey] of
      Inl e \<Rightarrow> False
    | Inr (returned, km') \<Rightarrow> Some ''k1'' \<notin> set returned) \<and>
   ak_id key1 \<notin> ak_id ` set (fst (store_run (disable_key one_key_store (ak_id key1) ''Forbidden'')
                                   [GetActiveKey, Provision working_registration, GetActiveKey]))"
proof -
  have h1: "distinct (map key (keys two_keys))"
    by (simp add: two_keys_def GeminiKeyManager_init_def)
  have h2: "current_index two_keys < length (keys two_keys)"
    by (simp add: two_keys_def GeminiKeyManager_init_def)
  have h3: "key (keys two_keys ! current_index two_keys) = Some ''k1''"
    by (simp add: two_keys_def GeminiKeyManager_init_def)
  have h4: "distinct (map ak_id (api_keys one_key_store))"
    by (simp add: one_key_store_def)
  have h5: "key1 \<in> set (api_keys one_key_store)"
    by (simp add: one_key_store_def)
  note t = disabled_credential_never_returned [OF h1 h2 h3 h4 h5,
      of "''HTTP error''" "[GetCurrentKey, RotateKey, GetCurrentKey]" "''Forbidden''"
         "[GetActiveKey, Provision working_registration, GetActiveKey]"]
  define S where "S = fst (store_run (disable_key one_key_store (ak_id key1) ''Forbidden'')
        [GetActiveKey, Provision working_registration, GetActiveKey])"
  have a: "case km_run (disable_current_key two_keys ''HTTP error'')
           [GetCurrentKey, RotateKey, GetCurrentKey] of
      Inl e \<Rightarrow> False
    | Inr (returned, km') \<Rightarrow> Some ''k1'' \<notin> set returned"
    using t by (rule conjunct1)
  have b: "\<forall>k \<in> set S. ak_id k \<noteq> ak_id key1"
    unfolding S_def using t by (rule conjunct2)
  have c: "ak_id key1 \<notin> ak_id ` set S"
  proof
    assume "ak_id key1 \<in> ak_id ` set S"
    then obtain k where m: "k \<in> set S" and e: "ak_id key1 = ak_id k" by (rule imageE)
    from b m have "ak_id k \<noteq> ak_id key1" by (rule bspec)
    with e show False by simp
  qed
  show ?thesis
    using h1 h2 h3 h4 h5 a c unfolding S_def by (intro conjI)
qed

text \<open>
  Claim C5 as stated fails for the AI pool: the constructor keeps both entries of a list
  that holds the same key twice, \<open>disable_current_key\<close> removes one of them, and the next
  \<open>get_current_key\<close> returns the key that was disabled.
\<close>

theorem duplicate_key_returned_after_disable_counterexample:
  "get_current_key (GeminiKeyManager_init [PlainKey ''k1'', PlainKey ''k1''] 0)
     = Inr (Some ''k1'', GeminiKeyManager_init [PlainKey ''k1'', PlainKey ''k1''] 0) \<and>
   km_run (disable_current_key (GeminiKeyManager_init [PlainKey ''k1'', PlainKey ''k1''] 0)
             ''HTTP 403'') [GetCurrentKey]
     = Inr ([Some ''k1''],
            \<lparr>keys = [\<lparr>key = Some ''k1'', status = Some ''active''\<rparr>], current_index = 0\<rparr>)"
  by (simp add: GeminiKeyManager_init_def get_current_key_def py_get_def
        disable_current_key_def py_pop_def)

section \<open>Segment validation\<close>

lemma map_of_fst_Some: "k \<in> fst ` set m \<Longrightarrow> \<exists>v. map_of m k = Some v"
  by (metis domD dom_map_of_conv_image_fst)

lemma check_segment_True:
  assumes "check_segment seg = Inr True"
  shows "has_four_fields seg \<and> (\<exists>d. segment_duration seg = Some d \<and> py_ge_int d 120)"
proof (cases seg)
  case (JObj m)
  with assms show ?thesis
    by (auto simp: check_segment_def all_fields_in_def has_four_fields_def segment_duration_def
             split: sum.splits bool.splits option.splits if_splits)
qed (use assms in \<open>auto simp: check_segment_def all_fields_in_def
        split: sum.splits bool.splits option.splits if_splits\<close>)

lemma check_segment_accepts:
  assumes "has_four_fields seg" and "segment_duration seg = Some d" and "py_ge_int d 120"
    and "check_segment seg = Inr b"
  shows "check_segment seg = Inr True"
proof (cases seg)
  case (JObj m)
  with assms show ?thesis
    by (auto simp: check_segment_def all_fields_in_def has_four_fields_def segment_duration_def
             split: sum.splits bool.splits option.splits if_splits)
qed (use assms in \<open>auto simp: has_four_fields_def\<close>)

lemma validate_segments_sound:
  "validate_segments xs = Inr vs \<Longrightarrow> seg \<in> set vs \<Longrightarrow>
   seg \<in> set xs \<and> check_segment seg = Inr True"
  by (induction xs arbitrary: vs) (auto split: sum.splits if_splits)

lemma validate_segments_complete:
  "\<forall>x \<in> set xs. \<exists>b. check_segment x = Inr b \<Longrightarrow>
   validate_segments xs = Inr (filter (\<lambda>x. check_segment x = Inr True) xs)"
  by (induction xs) (auto split: sum.splits)

lemma parse_gemini_response_cases:
  "parse_gemini_response json_loads response = Some segs \<Longrightarrow>
   segs \<noteq> [] \<and> (\<exists>entries. validate_segments entries = Inr segs)"
  by (auto simp: parse_gemini_response_def
           split: sum.splits json.splits option.splits bool.splits if_splits)

text \<open>
  The subtraction rounds: the floats nearest to 8.2 and to 128.2 differ by less than
  120, and their difference is rounded to the float below 120, so a segment from 8.2 to
  128.2 is too short, while a segment from 8 to 128 is not.
\<close>

lemma rounded_duration_below_threshold:
  "float_sub (float_round (641 / 5)) (float_round (41 / 5)) = 0x405DFFFFFFFFFFFF \<and>
   check_segment
     (JObj [(''start'', JFloat (float_round (41 / 5))), (''end'', JFloat (float_round (641 / 5))),
            (''title'', JStr ''X''), (''description'', JStr ''Y'')]) = Inr False \<and>
   check_segment
     (JObj [(''start'', JInt 8), (''end'', JInt 128),
            (''title'', JStr ''X''), (''description'', JStr ''Y'')]) = Inr True"
  by code_simp

text \<open>
  Claim C6, as amended. The duration of a segment is what Python's \<open>end - start\<close>
  gives (\<open>segment_duration\<close>: exact on two \<open>int\<close>s, rounded to the nearest float as soon
  as one of them is a float), and it is compared with 120 as Python's \<open>>=\<close> does
  (\<open>py_ge_int\<close>). For a response whose text can be read:
  if the text is not valid JSON the result is None; the result is never an empty list;
  every returned segment is an object with the four fields whose duration is at least 120
  (so a segment whose duration is below 120, or whose subtraction raises, is rejected);
  and a segment with the four fields and a duration of at least 120 is returned, provided
  that no entry of the same \<open>segments\<close> list, the segment itself included, raises in
  the validation loop.
\<close>

theorem segment_validation:
  assumes "response_text response = Inr (JStr text0)"
  shows
   "(json_loads (remove_code_block text0) = None \<longrightarrow>
       parse_gemini_response json_loads response = None) \<and>
    parse_gemini_response json_loads response \<noteq> Some [] \<and>
    (\<forall>segs seg. parse_gemini_response json_loads response = Some segs \<longrightarrow> seg \<in> set segs \<longrightarrow>
       has_four_fields seg \<and> (\<exists>d. segment_duration seg = Some d \<and> py_ge_int d 120)) \<and>
    (\<forall>members entries seg d.
       json_loads (remove_code_block text0) = Some (JObj members) \<longrightarrow>
       map_of members ''segments'' = Some (JArr entries) \<longrightarrow>
       (\<forall>x \<in> set entries. \<exists>b. check_segment x = Inr b) \<longrightarrow>
       seg \<in> set entries \<longrightarrow> has_four_fields seg \<longrightarrow>
       segment_duration seg = Some d \<longrightarrow> py_ge_int d 120 \<longrightarrow>
       (\<exists>segs. parse_gemini_response json_loads response = Some segs \<and> seg \<in> set segs))"
proof -
  have p1: "json_loads (remove_code_block text0) = None \<longrightarrow>
       parse_gemini_response json_loads response = None"
    using assms by (simp add: parse_gemini_response_def)
  have p2: "parse_gemini_response json_loads response \<noteq> Some []"
    using parse_gemini_response_cases by blast
  have p3: "\<forall>segs seg. parse_gemini_response json_loads response = Some segs \<longrightarrow> seg \<in> set segs \<longrightarrow>
       has_four_fields seg \<and> (\<exists>d. segment_duration seg = Some d \<and> py_ge_int d 120)"
  proof (intro allI impI)
    fix segs seg
    assume a: "parse_gemini_response json_loads response = Some segs" and m: "seg \<in> set segs"
    obtain entries where "validate_segments entries = Inr segs"
      using parse_gemini_response_cases [OF a] by blast
    then have "check_segment seg = Inr True"
      using m validate_segments_sound by blast
    then show "has_four_fields seg \<and> (\<exists>d. segment_duration seg = Some d \<and> py_ge_int d 120)"
      by (rule check_segment_True)
  qed
  have p4: "\<forall>members entries seg d.
       json_loads (remove_code_block text0) = Some (JObj members) \<longrightarrow>
       map_of members ''segments'' = Some (JArr entries) \<longrightarrow>
       (\<forall>x \<in> set entries. \<exists>b. check_segment x = Inr b) \<longrightarrow>
       seg \<in> set entries \<longrightarrow> has_four_fields seg \<longrightarrow>
       segment_duration seg = Some d \<longrightarrow> py_ge_int d 120 \<longrightarrow>
       (\<exists>segs. parse_gemini_response json_loads response = Some segs \<and> seg \<in> set segs)"
  proof (intro allI impI)
    fix members entries seg d
    assume l: "json_loads (remove_code_block text0) = Some (JObj members)"
      and s: "map_of members ''segments'' = Some (JArr entries)"
      and ok: "\<forall>x \<in> set entries. \<exists>b. check_segment x = Inr b"
      and m: "seg \<in> set entries" and f: "has_four_fields seg"
      and d: "segment_duration seg = Some d" "py_ge_int d 120"
    let ?vs = "filter (\<lambda>x. check_segment x = Inr True) entries"
    have v: "validate_segments entries = Inr ?vs"
      using ok by (rule validate_segments_complete)
    obtain b where "check_segment seg = Inr b"
      using ok m by blast
    with f d have c: "check_segment seg = Inr True"
      by (rule check_segment_accepts)
    with m have in_vs: "seg \<in> set ?vs" by simp
    then have ne: "?vs \<noteq> []" by (metis list.set(1) empty_iff)
    have k: "''segments'' \<in> fst ` set members"
      using s by (metis domI dom_map_of_conv_image_fst)
    have "parse_gemini_response json_loads response = Some ?vs"
      using assms l s v ne k by (simp add: parse_gemini_response_def)
    with in_vs show "\<exists>segs. parse_gemini_response json_loads response = Some segs \<and> seg \<in> set segs"
      by blast
  qed
  show ?thesis using p1 p2 p3 p4 by (intro conjI)
qed

lemma text_response_text: "response_text text_response = Inr (JStr ''segments'')"
  by (simp add: text_response_def gemini_format_def response_text_def)

theorem segment_validation_witness:
  "response_text text_response = Inr (JStr ''segments'') \<and>
   parse_gemini_response (loads_to (JObj [(''segments'', JArr [good_segment, short_segment])]))
       text_response \<noteq> Some [] \<and>
   (\<exists>segs. parse_gemini_response
             (loads_to (JObj [(''segments'', JArr [good_segment, short_segment])]))
             text_response = Some segs \<and> good_segment \<in> set segs)"
proof -
  let ?loads = "loads_to (JObj [(''segments'', JArr [good_segment, short_segment])])"
  have h: "response_text text_response = Inr (JStr ''segments'')"
    by (rule text_response_text)
  note t = segment_validation [OF h, of ?loads]
  have l: "?loads (remove_code_block ''segments'')
             = Some (JObj [(''segments'', JArr [good_segment, short_segment])])"
    by (simp add: loads_to_def)
  have s: "map_of [(''segments'', JArr [good_segment, short_segment])] ''segments''
             = Some (JArr [good_segment, short_segment])"
    by simp
  have ok: "\<forall>x \<in> set [good_segment, short_segment]. \<exists>b. check_segment x = Inr b"
    by (auto simp: good_segment_def short_segment_def check_segment_def all_fields_in_def
                   int_max_str_digits_def decimal_digits.simps)
  have f: "has_four_fields good_segment"
    by (simp add: good_segment_def has_four_fields_def)
  have d: "segment_duration good_segment = Some (PyInt 240)"
    by (simp add: good_segment_def segment_duration_def)
  have m: "good_segment \<in> set [good_segment, short_segment]" by simp
  have g: "py_ge_int (PyInt 240) 120" by simp
  from t have "\<exists>segs. parse_gemini_response ?loads text_response = Some segs
                  \<and> good_segment \<in> set segs"
    using l s ok f d m g by blast
  moreover from t have "parse_gemini_response ?loads text_response \<noteq> Some []"
    by (rule conjunct1 [OF conjunct2])
  ultimately show ?thesis using h by (intro conjI)
qed

text \<open>
  Claim C6 as stated fails: when the \<open>segments\<close> list holds a valid segment of 240
  seconds and the number 5, the membership test on 5 raises TypeError, the handler returns
  None, and the valid segment is not accepted.
\<close>

theorem segment_validation_counterexample:
  "has_four_fields good_segment \<and> segment_duration good_segment = Some (PyInt 240) \<and>
   py_ge_int (PyInt 240) 120 \<and>
   parse_gemini_response (loads_to (JObj [(''segments'', JArr [good_segment, JInt 5])]))
       text_response = None"
  by (simp add: good_segment_def has_four_fields_def segment_duration_def
        parse_gemini_response_def text_response_def gemini_format_def response_text_def
        loads_to_def check_segment_def all_fields_in_def)

section \<open>The statuses of an item during a run\<close>

lemma upload_shorts_item:
  "upload_shorts env vid shorts r = (e, r') \<Longrightarrow>
   item r' = item r \<and> observed r' = observed r \<and> download_calls r' = download_calls r"
  by (induction shorts arbitrary: r) (auto split: option.splits prod.splits sum.splits)

lemma phase_forward_refl: "phase_forward x x"
  by (simp add: phase_forward_def)

lemma phase_forward_trans: "phase_forward x y \<Longrightarrow> phase_forward y z \<Longrightarrow> phase_forward x z"
  by (auto simp: phase_forward_def)

lemma moves_forward_refl: "moves_forward a a"
  by (simp add: moves_forward_def phase_forward_refl)

lemma rank_le_2: "rank s \<le> 2"
  by (simp add: rank_def)

lemma download_forward_trans:
  assumes "rank x \<le> rank y" "rank x = 2 \<longrightarrow> x = y \<or> (x = ''completed'' \<and> y = ''skipped'')"
    and "rank y \<le> rank z" "rank y = 2 \<longrightarrow> y = z \<or> (y = ''completed'' \<and> z = ''skipped'')"
  shows "rank x \<le> rank z \<and> (rank x = 2 \<longrightarrow> x = z \<or> (x = ''completed'' \<and> z = ''skipped''))"
proof -
  have "rank x = 2 \<Longrightarrow> rank y = 2"
    using assms(1) rank_le_2 [of y] by simp
  then show ?thesis using assms by auto
qed

lemma moves_forward_trans:
  assumes "moves_forward a b" and "moves_forward b c"
  shows "moves_forward a c"
proof -
  have t: "phase_forward (transcript_status a) (transcript_status c)"
    using assms phase_forward_trans unfolding moves_forward_def by blast
  have n: "phase_forward (analysis_status a) (analysis_status c)"
    using assms phase_forward_trans unfolding moves_forward_def by blast
  have v: "phase_forward (conversion_status a) (conversion_status c)"
    using assms phase_forward_trans unfolding moves_forward_def by blast
  have d: "rank (download_status a) \<le> rank (download_status c) \<and>
     (rank (download_status a) = 2 \<longrightarrow>
        download_status a = download_status c \<or>
        (download_status a = ''completed'' \<and> download_status c = ''skipped''))"
    using assms
      download_forward_trans [of "download_status a" "download_status b" "download_status c"]
    by (simp add: moves_forward_def)
  show ?thesis using t n v d by (simp add: moves_forward_def)
qed

lemma sorted_wrt_last:
  "sorted_wrt moves_forward xs \<Longrightarrow> y \<in> set xs \<Longrightarrow> moves_forward y (last xs)"
proof (induction xs)
  case Nil
  then show ?case by simp
next
  case (Cons x xs)
  show ?case
  proof (cases "xs = []")
    case True
    with Cons.prems show ?thesis by (simp add: moves_forward_refl)
  next
    case False
    with Cons show ?thesis by auto
  qed
qed

lemma history_ok_assign:
  assumes "history_ok r" and "moves_forward (item r) pv" and "dependencies_met pv"
  shows "history_ok (assign r pv)"
proof -
  have "\<forall>y \<in> set (observed r). moves_forward y pv"
  proof
    fix y assume y: "y \<in> set (observed r)"
    have s: "sorted_wrt moves_forward (observed r)" and l: "last (observed r) = item r"
      using assms(1) by (simp_all add: history_ok_def)
    have "moves_forward y (item r)"
      using sorted_wrt_last [OF s y] l by simp
    then show "moves_forward y pv" using assms(2) by (rule moves_forward_trans)
  qed
  then show ?thesis
    using assms(1,3) by (simp add: history_ok_def assign_def sorted_wrt_append)
qed

lemma history_ok_fields [simp]:
  "history_ok (r\<lparr>stat_error := a\<rparr>) = history_ok r"
  "history_ok (r\<lparr>stat_skipped := b\<rparr>) = history_ok r"
  "history_ok (r\<lparr>stat_success := c\<rparr>) = history_ok r"
  "history_ok (r\<lparr>file_removed := d\<rparr>) = history_ok r"
  "history_ok (r\<lparr>store := e\<rparr>) = history_ok r"
  "history_ok (r\<lparr>download_calls := f\<rparr>) = history_ok r"
  "history_ok (r\<lparr>stat_shorts_created := g\<rparr>) = history_ok r"
  by (simp_all add: history_ok_def)

lemma history_ok_unexpected [simp]: "history_ok (unexpected r) = history_ok r"
  by (simp add: unexpected_def)

lemma history_ok_upload:
  "upload_shorts env vid shorts r = (e, r') \<Longrightarrow> history_ok r \<Longrightarrow> history_ok r'"
  using upload_shorts_item [of env vid shorts r e r'] by (simp add: history_ok_def)

lemma rank_simps [simp]:
  "rank ''completed'' = 2" "rank ''failed'' = 2" "rank ''skipped'' = 2"
  "rank ''pending'' = 0" "rank ''fetching'' = 1" "rank ''downloading'' = 1"
  by (simp_all add: rank_def)

lemma statuses_eq:
  "statuses pv = (t, d, a, c) \<longleftrightarrow>
   transcript_status pv = t \<and> download_status pv = d \<and> analysis_status pv = a \<and>
   conversion_status pv = c"
  by (simp add: statuses_def)

lemma cut_and_upload_ok:
  assumes "history_ok r"
    and "statuses (item r) = (''completed'', ''completed'', ''completed'', ''pending'')"
  shows "history_ok (cut_and_upload env segments r)"
proof (cases "cut_clips env (video_id (item r)) 1 segments")
  case (Inl e)
  with assms show ?thesis by (simp add: cut_and_upload_def)
next
  case (Inr created_shorts)
  note s = assms(2) [unfolded statuses_eq]
  show ?thesis
  proof (cases "created_shorts = []")
    case True
    have "history_ok (assign r ((item r)\<lparr>conversion_status := ''failed''\<rparr>))"
      using assms(1)
    proof (rule history_ok_assign)
      show "moves_forward (item r) ((item r)\<lparr>conversion_status := ''failed''\<rparr>)"
        using s by (simp add: moves_forward_def phase_forward_def)
      show "dependencies_met ((item r)\<lparr>conversion_status := ''failed''\<rparr>)"
        using s by (simp add: dependencies_met_def)
    qed
    with Inr True show ?thesis by (simp add: cut_and_upload_def)
  next
    case False
    let ?r1 = "assign r ((item r)\<lparr>conversion_status := ''completed'',
                                  shorts_count := length created_shorts\<rparr>)"
    have h1: "history_ok ?r1"
      using assms(1)
    proof (rule history_ok_assign)
      show "moves_forward (item r) ((item r)\<lparr>conversion_status := ''completed'',
                                  shorts_count := length created_shorts\<rparr>)"
        using s by (simp add: moves_forward_def phase_forward_def)
      show "dependencies_met ((item r)\<lparr>conversion_status := ''completed'',
                                  shorts_count := length created_shorts\<rparr>)"
        using s by (simp add: dependencies_met_def)
    qed
    obtain e r2 where u: "upload_shorts env (video_id (item ?r1)) created_shorts ?r1 = (e, r2)"
      by (cases "upload_shorts env (video_id (item ?r1)) created_shorts ?r1")
    have "history_ok r2" using u h1 by (rule history_ok_upload)
    with Inr False u show ?thesis
      by (cases e) (simp_all add: cut_and_upload_def Let_def)
  qed
qed

lemma item_assign [simp]: "item (assign r pv) = pv"
  by (simp add: assign_def)

lemma step_ok:
  assumes "history_ok r" and "statuses (item r) = (t, d, a, c)"
    and "statuses pv = (t', d', a', c')"
    and "phase_forward t t'" and "phase_forward a a'" and "phase_forward c c'"
    and "rank d \<le> rank d'"
    and "rank d = 2 \<longrightarrow> d = d' \<or> (d = ''completed'' \<and> d' = ''skipped'')"
    and "d' = ''completed'' \<longrightarrow> t' = ''completed''"
    and "a' = ''completed'' \<longrightarrow> d' = ''completed''"
    and "c' = ''completed'' \<longrightarrow> a' = ''completed''"
  shows "history_ok (assign r pv)"
  using assms(1)
proof (rule history_ok_assign)
  show "moves_forward (item r) pv"
    using assms(2-8) by (simp add: statuses_eq moves_forward_def)
  show "dependencies_met pv"
    using assms(3,9-11) by (simp add: statuses_eq dependencies_met_def)
qed

lemma check_and_analyze_ok:
  assumes "history_ok r"
    and "statuses (item r) = (''completed'', ''completed'', ''pending'', ''pending'')"
  shows "history_ok (check_and_analyze env r)"
proof (cases "check_video_availability_result env")
  case False
  have "history_ok (assign r ((item r)\<lparr>download_status := ''skipped'',
                             analysis_status := ''skipped'',
                             conversion_status := ''skipped'',
                             download_error := Some ''Video unavailable or inaccessible''\<rparr>))"
    using assms
    by (rule step_ok [where t' = "''completed''" and d' = "''skipped''" and a' = "''skipped''"
                        and c' = "''skipped''"])
       (use assms(2) in \<open>simp_all add: statuses_eq phase_forward_def\<close>)
  with False show ?thesis by (simp add: check_and_analyze_def)
next
  case True
  have failed: "history_ok (assign r ((item r)\<lparr>analysis_status := ''failed''\<rparr>))"
    using assms
    by (rule step_ok [where t' = "''completed''" and d' = "''completed''" and a' = "''failed''"
                        and c' = "''pending''"])
       (use assms(2) in \<open>simp_all add: statuses_eq phase_forward_def\<close>)
  have completed: "history_ok (assign r ((item r)\<lparr>analysis_status := ''completed''\<rparr>))"
    using assms
    by (rule step_ok [where t' = "''completed''" and d' = "''completed''" and a' = "''completed''"
                        and c' = "''pending''"])
       (use assms(2) in \<open>simp_all add: statuses_eq phase_forward_def\<close>)
  show ?thesis
  proof (cases "analyze_transcript_result env")
    case None
    with True failed show ?thesis by (simp add: check_and_analyze_def)
  next
    case (Some segments)
    show ?thesis
    proof (cases "segments = []")
      case T: True
      with True Some failed show ?thesis by (simp add: check_and_analyze_def)
    next
      case F: False
      have "history_ok (cut_and_upload env segments
              (assign r ((item r)\<lparr>analysis_status := ''completed''\<rparr>)))"
        using completed
        by (rule cut_and_upload_ok) (use assms(2) in \<open>simp add: statuses_eq\<close>)
      with True Some F show ?thesis by (simp add: check_and_analyze_def)
    qed
  qed
qed

lemma download_step_ok:
  assumes "history_ok r"
    and "statuses (item r) = (''completed'', ''pending'', ''pending'', ''pending'')"
  shows "history_ok (download_step env r)"
proof -
  let ?r1 = "(assign r ((item r)\<lparr>download_status := ''downloading''\<rparr>))
               \<lparr>download_calls := download_calls r + 1\<rparr>"
  have h1: "history_ok ?r1"
    using assms
    by (simp, rule step_ok [where t' = "''completed''" and d' = "''downloading''"
                              and a' = "''pending''" and c' = "''pending''"])
       (use assms(2) in \<open>simp_all add: statuses_eq phase_forward_def\<close>)
  have s1: "statuses (item ?r1) = (''completed'', ''downloading'', ''pending'', ''pending'')"
    using assms(2) by (simp add: statuses_eq)
  have failed: "history_ok (assign ?r1 ((item ?r1)\<lparr>download_status := ''failed'',
                                    download_error := Some ''Download failed''\<rparr>))"
    using h1 s1
    by (rule step_ok [where t' = "''completed''" and d' = "''failed''"
                        and a' = "''pending''" and c' = "''pending''"])
       (use assms(2) in \<open>simp_all add: statuses_eq phase_forward_def\<close>)
  show ?thesis
  proof (cases "download_video_result env")
    case None
    with failed show ?thesis by (simp add: download_step_def Let_def)
  next
    case (Some video_path)
    show ?thesis
    proof (cases "video_path = []")
      case True
      with Some failed show ?thesis by (simp add: download_step_def Let_def)
    next
      case False
      show ?thesis
      proof (cases "getsize_result env")
        case None
        have "history_ok (assign ?r1 ((item ?r1)\<lparr>download_status := ''completed'',
                                             local_path := Some video_path\<rparr>))"
          using h1 s1
          by (rule step_ok [where t' = "''completed''" and d' = "''completed''"
                        and a' = "''pending''" and c' = "''pending''"])
             (use assms(2) in \<open>simp_all add: statuses_eq phase_forward_def\<close>)
        with Some False None show ?thesis by (simp add: download_step_def Let_def)
      next
        case s2: (Some size_in_bytes)
        let ?r2 = "assign ?r1 ((item ?r1)\<lparr>download_status := ''completed'',
                                             local_path := Some video_path,
                                             file_size := Some size_in_bytes\<rparr>)"
        have h2: "history_ok ?r2"
          using h1 s1
          by (rule step_ok [where t' = "''completed''" and d' = "''completed''"
                        and a' = "''pending''" and c' = "''pending''"])
             (use assms(2) in \<open>simp_all add: statuses_eq phase_forward_def\<close>)
        have "history_ok (check_and_analyze env ?r2)"
          using h2 by (rule check_and_analyze_ok) (use assms(2) in \<open>simp add: statuses_eq\<close>)
        with Some False s2 show ?thesis by (simp add: download_step_def Let_def)
      qed
    qed
  qed
qed

lemma skip_item_ok:
  assumes "history_ok r"
    and "statuses (item r) = (''fetching'', ''pending'', ''pending'', ''pending'')"
  shows "history_ok (skip_item r e reason stats_error)"
proof -
  have "history_ok (assign r ((item r)\<lparr>download_status := ''skipped'',
                          transcript_status := ''skipped'',
                          analysis_status := ''skipped'',
                          conversion_status := ''skipped'',
                          download_error :=
                            (case e of
                               None \<Rightarrow> download_error (item r)
                             | Some text0 \<Rightarrow> Some text0)\<rparr>))"
    using assms
    by (rule step_ok [where t' = "''skipped''" and d' = "''skipped''"
                        and a' = "''skipped''" and c' = "''skipped''"])
       (use assms(2) in \<open>simp_all add: statuses_eq phase_forward_def\<close>)
  then show ?thesis by (simp add: skip_item_def)
qed

lemma after_transcript_ok:
  assumes "history_ok r"
    and "statuses (item r) = (''fetching'', ''pending'', ''pending'', ''pending'')"
  shows "history_ok (after_transcript env outcome r)"
proof (cases outcome)
  case (HTTPErrorRaised status_code)
  with assms skip_item_ok [OF assms] show ?thesis by (simp add: after_transcript_def)
next
  case (OtherRaised e)
  with assms show ?thesis by (simp add: after_transcript_def)
next
  case (TranscriptReturned transcript)
  show ?thesis
  proof (cases "transcript = None \<or> transcript = Some []")
    case True
    with TranscriptReturned skip_item_ok [OF assms] show ?thesis
      by (simp add: after_transcript_def)
  next
    case False
    let ?r1 = "assign r ((item r)\<lparr>transcript_status := ''completed''\<rparr>)"
    have "history_ok ?r1"
      using assms
      by (rule step_ok [where t' = "''completed''" and d' = "''pending''"
                        and a' = "''pending''" and c' = "''pending''"])
         (use assms(2) in \<open>simp_all add: statuses_eq phase_forward_def\<close>)
    then have "history_ok (download_step env ?r1)"
      by (rule download_step_ok) (use assms(2) in \<open>simp add: statuses_eq\<close>)
    with TranscriptReturned False show ?thesis by (auto simp: after_transcript_def)
  qed
qed

lemma process_single_video_history:
  assumes "all_pending playlist_video"
  shows "history_ok (process_single_video env playlist_video dbs)"
proof -
  let ?r0 = "new_run playlist_video dbs"
  let ?r1 = "assign ?r0 ((item ?r0)\<lparr>transcript_status := ''fetching''\<rparr>)"
  have s0: "statuses (item ?r0) = (''pending'', ''pending'', ''pending'', ''pending'')"
    using assms by (simp add: all_pending_def statuses_eq new_run_def)
  have h0: "history_ok ?r0"
    using assms by (simp add: history_ok_def new_run_def dependencies_met_def all_pending_def)
  have h1: "history_ok ?r1"
    using h0 s0
    by (rule step_ok [where t' = "''fetching''" and d' = "''pending''"
                        and a' = "''pending''" and c' = "''pending''"])
       (use s0 in \<open>simp_all add: statuses_eq phase_forward_def\<close>)
  have s1: "statuses (item ?r1) = (''fetching'', ''pending'', ''pending'', ''pending'')"
    using s0 by (simp add: statuses_eq)
  obtain result fetched where
    f: "fetch_transcript_with_retry (transcripts env) (store ?r1) 3 = (result, fetched)"
    by (cases "fetch_transcript_with_retry (transcripts env) (store ?r1) 3")
  have "history_ok (after_transcript env (seen_by_caller result) (?r1\<lparr>store := session fetched\<rparr>))"
    by (rule after_transcript_ok) (use h1 s1 in simp_all)
  with f show ?thesis by (simp add: process_single_video_def Let_def)
qed

lemma int_to_float_0: "int_to_float 0 = Inr 0"
  by code_simp

lemma int_to_float_900: "int_to_float 900 = Inr 0x408C200000000000"
  by code_simp

lemma fetch_found:
  "fetch_transcript_with_retry (always_outcome (TResponse 200 transcript_body)) one_key_store 3
   = (Inr (Some [\<lparr>te_start = 0, te_duration = 0x408C200000000000, te_text = JStr ''hello''\<rparr>]),
      \<lparr>session = mark_key_used one_key_store 1 100, iterations = 1,
        requests = [TResponse 200 transcript_body]\<rparr>)"
  by (simp add: fetch_transcript_with_retry_def fetch_loop.simps fetch_attempt_def
        fetch_request_def fetch_response_def get_active_key_def one_key_store_def key1_def
        always_outcome_def transcript_body_def parse_transcript_def py_float_def entry_field_def
        mark_key_used_def lru_le_def int_to_float_0 int_to_float_900)

lemma observed_upload:
  "upload_shorts env vid shorts r = (e, r') \<Longrightarrow> hd (observed r') = hd (observed r)"
  using upload_shorts_item [of env vid shorts r e r'] by simp

lemma hd_assign [simp]: "observed r \<noteq> [] \<Longrightarrow> hd (observed (assign r pv)) = hd (observed r)"
  by (simp add: assign_def)

lemma observed_assign_nonempty [simp]: "observed (assign r pv) \<noteq> []"
  by (simp add: assign_def)

lemma observed_fields [simp]:
  "observed (r\<lparr>stat_error := a\<rparr>) = observed r"
  "observed (unexpected r) = observed r"
  by (simp_all add: unexpected_def)

lemma cut_and_upload_hd:
  "observed r \<noteq> [] \<Longrightarrow> hd (observed (cut_and_upload env segments r)) = hd (observed r)"
  by (auto simp: cut_and_upload_def Let_def split: sum.splits prod.splits option.splits
           dest: observed_upload)

lemma check_and_analyze_hd:
  "observed r \<noteq> [] \<Longrightarrow> hd (observed (check_and_analyze env r)) = hd (observed r)"
  by (simp add: check_and_analyze_def cut_and_upload_hd split: option.splits)

lemma download_step_hd:
  "observed r \<noteq> [] \<Longrightarrow> hd (observed (download_step env r)) = hd (observed r)"
  by (simp add: download_step_def Let_def check_and_analyze_hd split: option.splits)

lemma after_transcript_hd:
  "observed r \<noteq> [] \<Longrightarrow> hd (observed (after_transcript env outcome r)) = hd (observed r)"
  by (simp add: after_transcript_def skip_item_def download_step_hd
           split: transcript_step.splits)

lemma process_single_video_hd:
  "hd (observed (process_single_video env playlist_video dbs)) = playlist_video"
  by (simp add: process_single_video_def Let_def after_transcript_hd new_run_def
           split: prod.splits)

text \<open>
  Claim C1, as amended. For an item whose four phases are \<open>pending\<close>, the successive
  states of the item during a run of \<open>process_single_video\<close> (from the item as given to
  the item as left) are such that, between any earlier and any later state, no phase
  moves backward in the order not started, in progress, ended, and an ended phase keeps
  its status, with one exception: the download phase goes from \<open>completed\<close> to \<open>skipped\<close>
  when the availability check is negative. In every state, a phase is \<open>completed\<close> only if
  the phase it depends on is \<open>completed\<close>.
\<close>

theorem statuses_move_forward:
  assumes "all_pending playlist_video"
  shows "sorted_wrt moves_forward (observed (process_single_video env playlist_video dbs)) \<and>
         (\<forall>pv \<in> set (observed (process_single_video env playlist_video dbs)).
            dependencies_met pv) \<and>
         hd (observed (process_single_video env playlist_video dbs)) = playlist_video \<and>
         last (observed (process_single_video env playlist_video dbs))
           = item (process_single_video env playlist_video dbs)"
proof -
  have h: "history_ok (process_single_video env playlist_video dbs)"
    using assms by (rule process_single_video_history)
  have "hd (observed (process_single_video env playlist_video dbs)) = playlist_video"
    by (rule process_single_video_hd)
  with h show ?thesis by (simp add: history_ok_def)
qed

theorem statuses_move_forward_witness:
  "all_pending example_item \<and>
   sorted_wrt moves_forward (observed (process_single_video happy_env example_item one_key_store)) \<and>
   list_all dependencies_met (observed (process_single_video happy_env example_item one_key_store)) \<and>
   statuses (item (process_single_video happy_env example_item one_key_store))
     = (''completed'', ''completed'', ''completed'', ''completed'')"
proof -
  have h: "all_pending example_item"
    by (simp add: all_pending_def example_item_def)
  note t = statuses_move_forward [OF h, of happy_env one_key_store]
  have d: "list_all dependencies_met
             (observed (process_single_video happy_env example_item one_key_store))"
    using t by (simp add: list_all_iff)
  have e: "statuses (item (process_single_video happy_env example_item one_key_store))
     = (''completed'', ''completed'', ''completed'', ''completed'')"
    by (simp add: process_single_video_def Let_def new_run_def assign_def
        happy_env_def fetch_found seen_by_caller_def after_transcript_def download_step_def
        check_and_analyze_def cut_and_upload_def example_item_def good_segment_def
        make_video_def statuses_def)
  show ?thesis using h t d e by simp
qed

text \<open>
  Claim C1 as stated fails: when the transcript and the download succeed and the
  availability check is negative, the download phase is observed \<open>completed\<close> and then
  \<open>skipped\<close>.
\<close>

theorem statuses_move_forward_counterexample:
  "map download_status (observed (process_single_video unavailable_env example_item one_key_store))
   = [''pending'', ''pending'', ''pending'', ''downloading'', ''completed'', ''skipped'']"
  by (simp add: process_single_video_def Let_def new_run_def assign_def unavailable_env_def
        happy_env_def fetch_found seen_by_caller_def after_transcript_def download_step_def
        check_and_analyze_def example_item_def)

section \<open>An item without a transcript\<close>

lemma fetch_response_requests:
  "fetch_response env m a k st = FReturn t st' \<Longrightarrow> requests st' = requests st"
  "fetch_response env m a k st = FContinue st' \<Longrightarrow> requests st' = requests st"
  "fetch_response env m a k st \<noteq> FRaise e st'"
  by (auto simp: fetch_response_def Let_def
           split: transcript_outcome.splits if_splits parse_result.splits)

lemma parse_empty_transcript:
  "map_of members ''transcript'' = Some (JArr []) \<Longrightarrow>
   parse_transcript env (JObj members) = ReturnNone"
proof -
  assume a: "map_of members ''transcript'' = Some (JArr [])"
  then have "''transcript'' \<in> fst ` set members"
    by (metis domI dom_map_of_conv_image_fst)
  with a show ?thesis by (simp add: parse_transcript_def)
qed

lemma fetch_response_ends:
  assumes "not_found (transcript_get env (nat a)) \<or> empty_but_successful (transcript_get env (nat a))"
  shows "\<exists>st'. fetch_response env m a k st = FReturn None st'"
proof (cases "transcript_get env (nat a)")
  case (TResponse c data)
  show ?thesis
  proof (cases "c = 404")
    case True
    with TResponse show ?thesis by (simp add: fetch_response_def)
  next
    case False
    with assms TResponse obtain members where
      d: "data = JObj members" "map_of members ''transcript'' = Some (JArr [])" and c: "c < 400"
      by (auto split: json.splits)
    from c TResponse d parse_empty_transcript [OF d(2), of env] show ?thesis
      by (auto simp: fetch_response_def)
  qed
next
  case TRequestException
  with assms show ?thesis by simp
next
  case TOtherException
  with assms show ?thesis by simp
qed

lemma fetch_request_log:
  "fetch_request env m a k st = FReturn t st' \<Longrightarrow>
     requests st' = requests st @ [transcript_get env (nat a)] \<and>
     (ends_fetch (transcript_get env (nat a)) \<longrightarrow> t = None)"
  "fetch_request env m a k st = FContinue st' \<Longrightarrow>
     requests st' = requests st @ [transcript_get env (nat a)] \<and>
     \<not> ends_fetch (transcript_get env (nat a))"
  "fetch_request env m a k st \<noteq> FRaise e st'"
proof -
  let ?st0 = "st\<lparr>requests := requests st @ [transcript_get env (nat a)]\<rparr>"
  show "fetch_request env m a k st = FReturn t st' \<Longrightarrow>
     requests st' = requests st @ [transcript_get env (nat a)] \<and>
     (ends_fetch (transcript_get env (nat a)) \<longrightarrow> t = None)"
    using fetch_response_requests(1) [of env m a k ?st0 t st']
          fetch_response_ends [of env a m k ?st0]
    by (auto simp: fetch_request_def ends_fetch_def)
  show "fetch_request env m a k st = FContinue st' \<Longrightarrow>
     requests st' = requests st @ [transcript_get env (nat a)] \<and>
     \<not> ends_fetch (transcript_get env (nat a))"
    using fetch_response_requests(2) [of env m a k ?st0 st']
          fetch_response_ends [of env a m k ?st0]
    by (auto simp: fetch_request_def ends_fetch_def)
  show "fetch_request env m a k st \<noteq> FRaise e st'"
    using fetch_response_requests(3) by (simp add: fetch_request_def)
qed

lemma fetch_attempt_log:
  "fetch_attempt env m a st = FReturn t st' \<Longrightarrow>
     requests st' = requests st @ [transcript_get env (nat a)] \<and>
     (ends_fetch (transcript_get env (nat a)) \<longrightarrow> t = None)"
  "fetch_attempt env m a st = FContinue st' \<Longrightarrow>
     requests st' = requests st \<or>
     (requests st' = requests st @ [transcript_get env (nat a)] \<and>
      \<not> ends_fetch (transcript_get env (nat a)))"
  "fetch_attempt env m a st = FRaise e st' \<Longrightarrow> requests st' = requests st"
  by (auto simp: fetch_attempt_def
           split: option.splits prod.splits sum.splits
           dest: fetch_request_log(1) fetch_request_log(2) simp: fetch_request_log(3))

lemma fetch_loop_ends:
  "fetch_loop env m a st = (result, st') \<Longrightarrow> outcome \<in> set (requests st') \<Longrightarrow>
   outcome \<notin> set (requests st) \<Longrightarrow> ends_fetch outcome \<Longrightarrow> result = Inr None"
proof (induction env m a st arbitrary: result st' rule: fetch_loop.induct)
  case (1 env m a st)
  show ?case
  proof (cases "a \<ge> m")
    case True
    with "1.prems"(1) show ?thesis by (subst (asm) fetch_loop.simps) simp
  next
    case False
    let ?st0 = "st\<lparr>iterations := iterations st + 1\<rparr>"
    show ?thesis
    proof (cases "fetch_attempt env m a ?st0")
      case (FReturn t st1)
      with False "1.prems"(1) have e: "st' = st1" "result = Inr t"
        by (subst (asm) fetch_loop.simps, simp)+
      from fetch_attempt_log(1) [OF FReturn]
      have l: "requests st1 = requests st @ [transcript_get env (nat a)]"
        and n: "ends_fetch (transcript_get env (nat a)) \<longrightarrow> t = None" by simp_all
      from "1.prems"(2,3) e l have "outcome = transcript_get env (nat a)" by simp
      with "1.prems"(4) n e show ?thesis by simp
    next
      case (FRaise err st1)
      with False "1.prems"(1) have e: "st' = st1"
        by (subst (asm) fetch_loop.simps) simp
      from fetch_attempt_log(3) [OF FRaise] have "requests st1 = requests st" by simp
      with "1.prems"(2,3) e show ?thesis by simp
    next
      case (FContinue st1)
      with False "1.prems"(1) have c: "fetch_loop env m (a + 1) st1 = (result, st')"
        by (subst (asm) fetch_loop.simps) simp
      from fetch_attempt_log(2) [OF FContinue] "1.prems"(3,4)
      have "outcome \<notin> set (requests st1)" by auto
      with "1.IH" [OF False FContinue c "1.prems"(2) _ "1.prems"(4)] show ?thesis by simp
    qed
  qed
qed

lemma skip_item_result:
  "statuses (item (skip_item r e reason stats_error))
     = (''skipped'', ''skipped'', ''skipped'', ''skipped'') \<and>
   video_id (item r) \<in> fst ` set (no_transcript_videos (store (skip_item r e reason stats_error))) \<and>
   download_calls (skip_item r e reason stats_error) = download_calls r \<and>
   stat_skipped (skip_item r e reason stats_error)"
  by (simp add: skip_item_def assign_def statuses_def merge_no_transcript_def)

text \<open>
  Claim C7. If some request of the item's transcript call was answered with status 404,
  or with a successful response whose transcript is empty, then the run ends with all
  four phases \<open>skipped\<close>, the item is entered in \<open>no_transcript_videos\<close>, and
  \<open>download_video\<close> is never called.
\<close>

theorem no_transcript_skips_item:
  assumes "fetch_transcript_with_retry (transcripts env) dbs 3 = (result, fetched)"
    and "outcome \<in> set (requests fetched)"
    and "not_found outcome \<or> empty_but_successful outcome"
  shows "statuses (item (process_single_video env playlist_video dbs))
           = (''skipped'', ''skipped'', ''skipped'', ''skipped'') \<and>
         video_id playlist_video
           \<in> fst ` set (no_transcript_videos (store (process_single_video env playlist_video dbs))) \<and>
         download_calls (process_single_video env playlist_video dbs) = 0 \<and>
         stat_skipped (process_single_video env playlist_video dbs)"
proof -
  have "result = Inr None"
    using assms(1) [unfolded fetch_transcript_with_retry_def] assms(2)
  proof (rule fetch_loop_ends)
    show "outcome \<notin> set (requests \<lparr>session = dbs, iterations = 0, requests = []\<rparr>)" by simp
    show "ends_fetch outcome" using assms(3) by (simp add: ends_fetch_def)
  qed
  then have s: "seen_by_caller result = TranscriptReturned None"
    by (simp add: seen_by_caller_def)
  let ?r1 = "(assign (new_run playlist_video dbs)
               ((item (new_run playlist_video dbs))\<lparr>transcript_status := ''fetching''\<rparr>))
             \<lparr>store := session fetched\<rparr>"
  have p: "process_single_video env playlist_video dbs
             = skip_item ?r1 None ''Transcript not available from API'' ''No transcript''"
    using assms(1) s
    by (simp add: process_single_video_def Let_def after_transcript_def new_run_def assign_def)
  have i: "video_id (item ?r1) = video_id playlist_video" "download_calls ?r1 = 0"
    by (simp_all add: new_run_def assign_def)
  show ?thesis
    unfolding p using skip_item_result [of ?r1 None] i by simp
qed

lemma fetch_not_found:
  "fetch_transcript_with_retry (transcripts not_found_env) one_key_store 3
   = (Inr None, \<lparr>session = mark_key_used one_key_store 1 100, iterations = 1,
                  requests = [TResponse 404 JNull]\<rparr>)"
  by (simp add: fetch_transcript_with_retry_def fetch_loop.simps fetch_attempt_def
        fetch_request_def fetch_response_def get_active_key_def one_key_store_def key1_def
        always_outcome_def not_found_env_def happy_env_def mark_key_used_def)

lemma fetch_empty:
  "fetch_transcript_with_retry (transcripts empty_transcript_env) one_key_store 3
   = (Inr None, \<lparr>session = one_key_store, iterations = 1,
                  requests = [TResponse 200 (JObj [(''transcript'', JArr [])])]\<rparr>)"
  by (simp add: fetch_transcript_with_retry_def fetch_loop.simps fetch_attempt_def
        fetch_request_def fetch_response_def get_active_key_def one_key_store_def key1_def
        always_outcome_def empty_transcript_env_def happy_env_def parse_transcript_def)

theorem no_transcript_skips_item_witness:
  "not_found (TResponse 404 JNull) \<and>
   TResponse 404 JNull
     \<in> set (requests (snd (fetch_transcript_with_retry (transcripts not_found_env)
                               one_key_store 3))) \<and>
   statuses (item (process_single_video not_found_env example_item one_key_store))
     = (''skipped'', ''skipped'', ''skipped'', ''skipped'') \<and>
   video_id example_item
     \<in> fst ` set (no_transcript_videos
                    (store (process_single_video not_found_env example_item one_key_store))) \<and>
   download_calls (process_single_video not_found_env example_item one_key_store) = 0 \<and>
   empty_but_successful (TResponse 200 (JObj [(''transcript'', JArr [])])) \<and>
   statuses (item (process_single_video empty_transcript_env example_item one_key_store))
     = (''skipped'', ''skipped'', ''skipped'', ''skipped'') \<and>
   download_calls (process_single_video empty_transcript_env example_item one_key_store) = 0"
proof -
  have n: "not_found (TResponse 404 JNull)" by simp
  have m: "TResponse 404 JNull
             \<in> set (requests \<lparr>session = mark_key_used one_key_store 1 100, iterations = 1,
                               requests = [TResponse 404 JNull]\<rparr>)"
    by simp
  note t1 = no_transcript_skips_item [OF fetch_not_found m disjI1 [OF n], of example_item]
  have e: "empty_but_successful (TResponse 200 (JObj [(''transcript'', JArr [])]))" by simp
  have m2: "TResponse 200 (JObj [(''transcript'', JArr [])])
             \<in> set (requests \<lparr>session = one_key_store, iterations = 1,
                  requests = [TResponse 200 (JObj [(''transcript'', JArr [])])]\<rparr>)"
    by simp
  note t2 = no_transcript_skips_item [OF fetch_empty m2 disjI2 [OF e], of example_item]
  show ?thesis using n e t1 t2 by (simp add: fetch_not_found)
qed

section \<open>Clips, artifacts and the conversion phase\<close>


lemma artifacts_fields [simp]:
  "artifacts env r (r'\<lparr>stat_error := a\<rparr>) = artifacts env r r'"
  "artifacts env r (r'\<lparr>stat_skipped := b\<rparr>) = artifacts env r r'"
  "artifacts env r (r'\<lparr>stat_success := c\<rparr>) = artifacts env r r'"
  "artifacts env r (r'\<lparr>file_removed := d\<rparr>) = artifacts env r r'"
  "artifacts env r (r'\<lparr>download_calls := f\<rparr>) = artifacts env r r'"
  "artifacts env r (unexpected r') = artifacts env r r'"
  "artifacts env r (assign r' pv) = artifacts env r r'"
  "artifacts env (assign r pv) r' = artifacts env r r'"
  "artifacts env (r\<lparr>download_calls := f\<rparr>) r' = artifacts env r r'"
  by (simp_all add: artifacts_def unexpected_def assign_def)








lemma update_row_videos [simp]:
  "videos (disable_key d i reason) = videos d" "videos (mark_key_used d i now) = videos d"
  by (simp_all add: disable_key_def mark_key_used_def)













end
